theory Spec2Isabelle
  imports Complex_Main
begin

section \<open>Strings\<close>

text \<open>
  A JavaScript string is modelled as a \<^typ>\<open>string\<close>: the list of the bytes of its UTF-8
  form. Equality, emptiness, concatenation and splitting at a comma or a line feed are the
  same on the bytes as on the string itself. The built-ins \<^verbatim>\<open>toLowerCase\<close> and
  \<^verbatim>\<open>trim\<close> belong to the language, not to the repository: like the library's
  \<^verbatim>\<open>slugify\<close> they are parameters of every function that calls them, under their own
  names, and whatever is proved holds for the built-ins themselves.

  An optional field of a CSV row (\<^verbatim>\<open>field?: string\<close>) is a \<^typ>\<open>string option\<close>;
  \<open>None\<close> is \<^verbatim>\<open>undefined\<close>. The source tests such fields by truthiness: a field is
  \<^emph>\<open>set\<close> when it is present and not the empty string.
\<close>

fun truthy :: "string option \<Rightarrow> bool" where
  "truthy None = False"
| "truthy (Some s) = (s \<noteq> [])"

text \<open>
  \<^verbatim>\<open>s.split(',')\<close>: the segments between the separators, in order; the empty string
  gives one empty segment.
\<close>

fun str_split :: "char \<Rightarrow> string \<Rightarrow> string list" where
  "str_split sep [] = [[]]"
| "str_split sep (c # cs) =
     (if c = sep then [] # str_split sep cs
      else (case str_split sep cs of
              [] \<Rightarrow> [[c]]
            | seg # segs \<Rightarrow> (c # seg) # segs))"

text \<open>\<^verbatim>\<open>segs.join(',')\<close>, used to state what splitting means.\<close>

fun str_join :: "char \<Rightarrow> string list \<Rightarrow> string" where
  "str_join sep [] = []"
| "str_join sep [seg] = seg"
| "str_join sep (seg # segs) = seg @ sep # str_join sep segs"

text \<open>The multi-value fields of the projection: \<^verbatim>\<open>f ? f.split(',') : []\<close>.\<close>

definition split_field :: "string option \<Rightarrow> string list" where
  "split_field f = (case f of None \<Rightarrow> [] | Some s \<Rightarrow> if s \<noteq> [] then str_split CHR '','' s else [])"

section \<open>Errors\<close>

text \<open>
  The only run-time error the resolution and aggregation code can raise is the
  \<^verbatim>\<open>TypeError\<close> of reading a property of \<^verbatim>\<open>map.get(k)!\<close> when the key is missing.
\<close>

datatype error = TypeError

definition bindE :: "error + 'a \<Rightarrow> ('a \<Rightarrow> error + 'b) \<Rightarrow> error + 'b" where
  "bindE m f = (case m of Inl e \<Rightarrow> Inl e | Inr x \<Rightarrow> f x)"

text \<open>\<^verbatim>\<open>xs.forEach(f)\<close> where \<open>f\<close> rewrites its own element.\<close>

fun mapE :: "('a \<Rightarrow> error + 'b) \<Rightarrow> 'a list \<Rightarrow> error + 'b list" where
  "mapE f [] = Inr []"
| "mapE f (x # xs) = bindE (f x) (\<lambda>y. bindE (mapE f xs) (\<lambda>ys. Inr (y # ys)))"

text \<open>\<^verbatim>\<open>xs.forEach(f)\<close> where \<open>f\<close> updates shared state.\<close>

fun foldE :: "('a \<Rightarrow> 's \<Rightarrow> error + 's) \<Rightarrow> 'a list \<Rightarrow> 's \<Rightarrow> error + 's" where
  "foldE f [] s = Inr s"
| "foldE f (x # xs) s = bindE (f x s) (foldE f xs)"

section \<open>The JavaScript Map\<close>

text \<open>
  A \<^verbatim>\<open>Map\<close> keeps its keys in the order of their first insertion; setting a key again
  replaces the value and keeps the position.
\<close>

type_synonym 'v js_map = "(string \<times> 'v) list"

fun map_set :: "'v js_map \<Rightarrow> string \<Rightarrow> 'v \<Rightarrow> 'v js_map" where
  "map_set [] k v = [(k, v)]"
| "map_set ((k', v') # m) k v =
     (if k' = k then (k, v) # m else (k', v') # map_set m k v)"

definition new_Map :: "(string \<times> 'v) list \<Rightarrow> 'v js_map" where
  "new_Map es = foldl (\<lambda>m (k, v). map_set m k v) [] es"

definition map_has :: "'v js_map \<Rightarrow> string \<Rightarrow> bool" where
  "map_has m k = (map_of m k \<noteq> None)"

definition map_get :: "'v js_map \<Rightarrow> string \<Rightarrow> 'v option" where
  "map_get m k = map_of m k"

section \<open>The tables\<close>

text \<open>
  The four interfaces of the source. Field names carry a prefix for the interface
  (\<open>s_\<close> BeautySalon, \<open>c_\<close> City, \<open>st_\<close> State, \<open>cat_\<close> Category), since several
  interfaces have fields of the same name.

  The count fields are declared \<^verbatim>\<open>number\<close>, but the loader gives every cell of a row as
  a string: a count field is unset when the table has no such column, holds the cell when
  it has one, and holds a number once the code has written to it.
\<close>

datatype counter = Unset | Cell string | Count nat

record BeautySalon =
  s_id :: string
  s_title :: string
  s_website :: "string option"
  s_telephone :: "string option"
  s_address :: "string option"
  s_postal_code :: "string option"
  s_latitude :: "string option"
  s_longitude :: "string option"
  s_email :: "string option"
  s_opening_hours :: "string option"
  s_description :: "string option"
  s_service_product :: "string option"
  s_reviews :: "string option"
  s_average_star :: "string option"
  s_city_id :: "string option"
  s_city_name :: "string option"
  s_state_id :: "string option"
  s_state_name :: "string option"
  s_category_ids :: "string option"
  s_detail_keys :: "string option"
  s_detail_values :: "string option"
  s_amenity_ids :: "string option"
  s_payment_ids :: "string option"
  s_images :: "string option"

record City =
  c_id :: string
  c_city :: string
  c_state_id :: string
  c_state_name :: "string option"
  c_salon_count :: counter

record State =
  st_id :: string
  st_state :: string
  st_city_count :: counter
  st_salon_count :: counter

record Category =
  cat_id :: string
  cat_category :: string
  cat_salon_count :: counter

text \<open>
  The rows of the four arrays are objects that the lookup maps share with the arrays:
  a map value is the position of the object in its array, and a write through the map
  is a write to the array.
\<close>

definition index_map :: "string list \<Rightarrow> nat js_map" where
  "index_map ids = new_Map (zip ids [0..<length ids])"

definition citiesMap :: "City list \<Rightarrow> nat js_map" where
  "citiesMap cs = index_map (map c_id cs)"

definition statesMap :: "State list \<Rightarrow> nat js_map" where
  "statesMap sts = index_map (map st_id sts)"

definition categoriesMap :: "Category list \<Rightarrow> nat js_map" where
  "categoriesMap cats = index_map (map cat_id cats)"

record tables =
  beautySalons :: "BeautySalon list"
  cities :: "City list"
  states :: "State list"
  categories :: "Category list"

section \<open>State-name backfill\<close>

definition backfill_city :: "State list \<Rightarrow> nat js_map \<Rightarrow> City \<Rightarrow> error + City" where
  "backfill_city sts sm city =
     (if c_state_id city \<noteq> [] \<and> map_has sm (c_state_id city)
      then (case map_get sm (c_state_id city) of
              None \<Rightarrow> Inl TypeError
            | Some j \<Rightarrow> Inr (city\<lparr>c_state_name := Some (st_state (sts ! j))\<rparr>))
      else Inr city)"

definition backfill :: "State list \<Rightarrow> nat js_map \<Rightarrow> City list \<Rightarrow> error + City list" where
  "backfill sts sm cs = mapE (backfill_city sts sm) cs"

section \<open>Address-based link inference\<close>

text \<open>
  The two \<^verbatim>\<open>for (const [id, x] of map.entries())\<close> loops with their \<^verbatim>\<open>break\<close>:
  the entries are visited in the order of the map, and the first hit ends the loop.
\<close>

fun find_city ::
  "(string \<Rightarrow> string) \<Rightarrow> City list \<Rightarrow> nat js_map \<Rightarrow> string \<Rightarrow> BeautySalon \<Rightarrow> BeautySalon" where
  "find_city toLowerCase cs [] cityName salon = salon"
| "find_city toLowerCase cs ((k, i) # es) cityName salon =
     (if toLowerCase (c_city (cs ! i)) = toLowerCase cityName
      then salon\<lparr>s_city_id := Some k, s_city_name := Some (c_city (cs ! i))\<rparr>
      else find_city toLowerCase cs es cityName salon)"

fun find_state ::
  "(string \<Rightarrow> string) \<Rightarrow> State list \<Rightarrow> nat js_map \<Rightarrow> string \<Rightarrow> BeautySalon \<Rightarrow> BeautySalon" where
  "find_state toLowerCase sts [] stateName salon = salon"
| "find_state toLowerCase sts ((k, j) # es) stateName salon =
     (if toLowerCase (st_state (sts ! j)) = toLowerCase stateName
      then salon\<lparr>s_state_id := Some k, s_state_name := Some (st_state (sts ! j))\<rparr>
      else find_state toLowerCase sts es stateName salon)"

definition addressParts :: "(string \<Rightarrow> string) \<Rightarrow> string \<Rightarrow> string list" where
  "addressParts trim a = map trim (str_split CHR '','' a)"

definition infer_salon ::
  "(string \<Rightarrow> string) \<Rightarrow> (string \<Rightarrow> string) \<Rightarrow>
   City list \<Rightarrow> State list \<Rightarrow> nat js_map \<Rightarrow> nat js_map \<Rightarrow> BeautySalon \<Rightarrow> BeautySalon" where
  "infer_salon trim toLowerCase cs sts cm sm salon =
     (case s_address salon of
        None \<Rightarrow> salon
      | Some a \<Rightarrow>
          if a \<noteq> [] \<and> \<not> truthy (s_city_id salon) \<and> \<not> truthy (s_state_id salon)
          then (let parts = addressParts trim a in
                if length parts \<ge> 3
                then (let cityName = parts ! (length parts - 3);
                          stateName = parts ! (length parts - 2)
                      in find_state toLowerCase sts sm stateName
                           (find_city toLowerCase cs cm cityName salon))
                else salon)
          else salon)"

definition infer ::
  "(string \<Rightarrow> string) \<Rightarrow> (string \<Rightarrow> string) \<Rightarrow>
   City list \<Rightarrow> State list \<Rightarrow> nat js_map \<Rightarrow> nat js_map \<Rightarrow> BeautySalon list \<Rightarrow> BeautySalon list" where
  "infer trim toLowerCase cs sts cm sm ss = map (infer_salon trim toLowerCase cs sts cm sm) ss"

text \<open>
  Resolution: the maps are built from the arrays as loaded, the cities get their state
  names, then the salons get their links.
\<close>

definition resolve ::
  "(string \<Rightarrow> string) \<Rightarrow> (string \<Rightarrow> string) \<Rightarrow> tables \<Rightarrow> error + tables" where
  "resolve trim toLowerCase t =
     (let cm = citiesMap (cities t); sm = statesMap (states t) in
      bindE (backfill (states t) sm (cities t)) (\<lambda>cs.
        Inr (t\<lparr>cities := cs,
               beautySalons := infer trim toLowerCase cs (states t) cm sm (beautySalons t)\<rparr>)))"

section \<open>Aggregation\<close>

text \<open>
  \<^verbatim>\<open>(x || 0) + 1\<close> on a count field. An unset field, an empty cell and the number 0 are
  falsy and give 1. A non-empty cell is a string, and \<^verbatim>\<open>+\<close> appends the digit. A number
  is incremented.
\<close>

fun add_one :: "counter \<Rightarrow> counter" where
  "add_one Unset = Count 1"
| "add_one (Cell s) = (if s = [] then Count 1 else Cell (s @ ''1''))"
| "add_one (Count n) = Count (n + 1)"

text \<open>
  \<^verbatim>\<open>const x = map.get(k)!; x.count = (x.count || 0) + 1\<close>: the object the map holds for
  \<open>k\<close> is updated in its array.
\<close>

definition update_at :: "nat js_map \<Rightarrow> string \<Rightarrow> ('a \<Rightarrow> 'a) \<Rightarrow> 'a list \<Rightarrow> error + 'a list" where
  "update_at m k f xs =
     (case map_get m k of
        None \<Rightarrow> Inl TypeError
      | Some i \<Rightarrow> Inr (xs[i := f (xs ! i)]))"

definition inc_city_salon_count :: "City \<Rightarrow> City" where
  "inc_city_salon_count city = city\<lparr>c_salon_count := add_one (c_salon_count city)\<rparr>"

definition inc_state_salon_count :: "State \<Rightarrow> State" where
  "inc_state_salon_count state = state\<lparr>st_salon_count := add_one (st_salon_count state)\<rparr>"

definition inc_category_salon_count :: "Category \<Rightarrow> Category" where
  "inc_category_salon_count category =
     category\<lparr>cat_salon_count := add_one (cat_salon_count category)\<rparr>"

definition inc_state_city_count :: "State \<Rightarrow> State" where
  "inc_state_city_count state = state\<lparr>st_city_count := add_one (st_city_count state)\<rparr>"

definition count_city :: "nat js_map \<Rightarrow> BeautySalon \<Rightarrow> City list \<Rightarrow> error + City list" where
  "count_city cm salon cs =
     (case s_city_id salon of
        None \<Rightarrow> Inr cs
      | Some k \<Rightarrow> if k \<noteq> [] \<and> map_has cm k then update_at cm k inc_city_salon_count cs else Inr cs)"

definition count_state :: "nat js_map \<Rightarrow> BeautySalon \<Rightarrow> State list \<Rightarrow> error + State list" where
  "count_state sm salon sts =
     (case s_state_id salon of
        None \<Rightarrow> Inr sts
      | Some k \<Rightarrow> if k \<noteq> [] \<and> map_has sm k then update_at sm k inc_state_salon_count sts else Inr sts)"

definition count_category :: "nat js_map \<Rightarrow> string \<Rightarrow> Category list \<Rightarrow> error + Category list" where
  "count_category catm categoryId cats =
     (if map_has catm categoryId then update_at catm categoryId inc_category_salon_count cats
      else Inr cats)"

definition count_categories :: "nat js_map \<Rightarrow> BeautySalon \<Rightarrow> Category list \<Rightarrow> error + Category list" where
  "count_categories catm salon cats =
     (case s_category_ids salon of
        None \<Rightarrow> Inr cats
      | Some ids \<Rightarrow>
          if ids \<noteq> [] then foldE (count_category catm) (str_split CHR '','' ids) cats
          else Inr cats)"

definition count_salon :: "nat js_map \<Rightarrow> nat js_map \<Rightarrow> nat js_map \<Rightarrow> BeautySalon \<Rightarrow> tables \<Rightarrow> error + tables" where
  "count_salon cm sm catm salon t =
     bindE (count_city cm salon (cities t)) (\<lambda>cs.
     bindE (count_state sm salon (states t)) (\<lambda>sts.
     bindE (count_categories catm salon (categories t)) (\<lambda>cats.
       Inr (t\<lparr>cities := cs, states := sts, categories := cats\<rparr>))))"

definition count_city_of_state :: "nat js_map \<Rightarrow> City \<Rightarrow> State list \<Rightarrow> error + State list" where
  "count_city_of_state sm city sts =
     (if c_state_id city \<noteq> [] \<and> map_has sm (c_state_id city)
      then update_at sm (c_state_id city) inc_state_city_count sts
      else Inr sts)"

definition aggregate :: "nat js_map \<Rightarrow> nat js_map \<Rightarrow> nat js_map \<Rightarrow> tables \<Rightarrow> error + tables" where
  "aggregate cm sm catm t =
     bindE (foldE (count_salon cm sm catm) (beautySalons t) t) (\<lambda>t1.
     bindE (foldE (count_city_of_state sm) (cities t1) (states t1)) (\<lambda>sts.
       Inr (t1\<lparr>states := sts\<rparr>)))"

section \<open>Projection\<close>

text \<open>
  \<^verbatim>\<open>slugify\<close> comes from a library outside the repository; the projection takes it as a
  parameter. \<^verbatim>\<open>x && p(x)\<close> on an optional string is \<open>truthy_and\<close>.
\<close>

fun truthy_and :: "string option \<Rightarrow> (string \<Rightarrow> bool) \<Rightarrow> bool" where
  "truthy_and None p = False"
| "truthy_and (Some s) p = (s \<noteq> [] \<and> p s)"

record ProcessedSalon =
  ps_id :: string
  ps_title :: string
  ps_slug :: string
  ps_website :: "string option"
  ps_telephone :: "string option"
  ps_address :: "string option"
  ps_postal_code :: "string option"
  ps_latitude :: "string option"
  ps_longitude :: "string option"
  ps_email :: "string option"
  ps_opening_hours :: "string option"
  ps_description :: "string option"
  ps_service_product :: "string option"
  ps_reviews :: "string option"
  ps_average_star :: "string option"
  ps_city_id :: "string option"
  ps_city_name :: "string option"
  ps_state_id :: "string option"
  ps_state_name :: "string option"
  ps_category_ids :: "string list"
  ps_detail_keys :: "string list"
  ps_detail_values :: "string list"
  ps_amenity_ids :: "string list"
  ps_payment_ids :: "string list"
  ps_images :: "string list"

record ProcessedCity =
  pc_id :: string
  pc_city :: string
  pc_slug :: string
  pc_state_id :: string
  pc_state_name :: "string option"
  pc_salon_ids :: "string list"

record ProcessedState =
  pst_id :: string
  pst_state :: string
  pst_slug :: string
  pst_city_ids :: "string list"
  pst_salon_ids :: "string list"

record ProcessedCategory =
  pcat_id :: string
  pcat_category :: string
  pcat_slug :: string
  pcat_salon_ids :: "string list"

definition processSalon :: "(string \<Rightarrow> string) \<Rightarrow> BeautySalon \<Rightarrow> ProcessedSalon" where
  "processSalon slugify salon =
     (let citySlug = (case s_city_name salon of
                        None \<Rightarrow> ''unknown-city''
                      | Some n \<Rightarrow> if n \<noteq> [] then slugify n else ''unknown-city'');
          stateSlug = (case s_state_name salon of
                         None \<Rightarrow> ''unknown-state''
                       | Some n \<Rightarrow> if n \<noteq> [] then slugify n else ''unknown-state'');
          slug = slugify (citySlug @ ''-'' @ stateSlug @ ''-'' @ s_title salon @ ''-'' @ s_id salon)
      in \<lparr> ps_id = s_id salon,
           ps_title = s_title salon,
           ps_slug = slug,
           ps_website = s_website salon,
           ps_telephone = s_telephone salon,
           ps_address = s_address salon,
           ps_postal_code = s_postal_code salon,
           ps_latitude = s_latitude salon,
           ps_longitude = s_longitude salon,
           ps_email = s_email salon,
           ps_opening_hours = s_opening_hours salon,
           ps_description = s_description salon,
           ps_service_product = s_service_product salon,
           ps_reviews = s_reviews salon,
           ps_average_star = s_average_star salon,
           ps_city_id = s_city_id salon,
           ps_city_name = s_city_name salon,
           ps_state_id = s_state_id salon,
           ps_state_name = s_state_name salon,
           ps_category_ids = split_field (s_category_ids salon),
           ps_detail_keys = split_field (s_detail_keys salon),
           ps_detail_values = split_field (s_detail_values salon),
           ps_amenity_ids = split_field (s_amenity_ids salon),
           ps_payment_ids = split_field (s_payment_ids salon),
           ps_images = split_field (s_images salon) \<rparr>)"

text \<open>The filter callbacks, with their early returns in the order of the source.\<close>

definition salonOfCity :: "(string \<Rightarrow> string) \<Rightarrow> City \<Rightarrow> ProcessedSalon \<Rightarrow> bool" where
  "salonOfCity toLowerCase city salon =
     (if truthy_and (ps_city_id salon) (\<lambda>k. k = c_id city) then True
      else if truthy_and (ps_city_name salon) (\<lambda>n. toLowerCase n = toLowerCase (c_city city))
      then True
      else False)"

definition processCity ::
  "(string \<Rightarrow> string) \<Rightarrow> (string \<Rightarrow> string) \<Rightarrow> ProcessedSalon list \<Rightarrow> City \<Rightarrow> ProcessedCity" where
  "processCity toLowerCase slugify processedSalons city =
     (let slug = slugify (c_city city @ ''-'' @ c_state_id city);
          salonIdsForCity = map ps_id (filter (salonOfCity toLowerCase city) processedSalons)
      in \<lparr> pc_id = c_id city,
           pc_city = c_city city,
           pc_slug = slug,
           pc_state_id = c_state_id city,
           pc_state_name = c_state_name city,
           pc_salon_ids = salonIdsForCity \<rparr>)"

definition salonOfState ::
  "(string \<Rightarrow> string) \<Rightarrow> State \<Rightarrow> string list \<Rightarrow> ProcessedSalon \<Rightarrow> bool" where
  "salonOfState toLowerCase state cityIdsForState salon =
     (if truthy_and (ps_state_id salon) (\<lambda>k. k = st_id state) then True
      else if truthy_and (ps_state_name salon) (\<lambda>n. toLowerCase n = toLowerCase (st_state state))
      then True
      else if truthy_and (ps_city_id salon) (\<lambda>k. k \<in> set cityIdsForState) then True
      else False)"

definition processState ::
  "(string \<Rightarrow> string) \<Rightarrow> (string \<Rightarrow> string) \<Rightarrow>
   ProcessedSalon list \<Rightarrow> ProcessedCity list \<Rightarrow> State \<Rightarrow> ProcessedState" where
  "processState toLowerCase slugify processedSalons processedCities state =
     (let slug = slugify (st_state state);
          cityIdsForState = map pc_id (filter (\<lambda>city. pc_state_id city = st_id state) processedCities);
          salonIdsForState =
            map ps_id (filter (salonOfState toLowerCase state cityIdsForState) processedSalons)
      in \<lparr> pst_id = st_id state,
           pst_state = st_state state,
           pst_slug = slug,
           pst_city_ids = cityIdsForState,
           pst_salon_ids = salonIdsForState \<rparr>)"

definition processCategory ::
  "(string \<Rightarrow> string) \<Rightarrow> ProcessedSalon list \<Rightarrow> Category \<Rightarrow> ProcessedCategory" where
  "processCategory slugify processedSalons category =
     \<lparr> pcat_id = cat_id category,
       pcat_category = cat_category category,
       pcat_slug = slugify (cat_category category),
       pcat_salon_ids =
         map ps_id (filter (\<lambda>salon. cat_id category \<in> set (ps_category_ids salon)) processedSalons) \<rparr>"

text \<open>
  The view-model records as the object literals the source builds: the properties each
  object has, by name. Reading a property an object does not have gives \<^verbatim>\<open>undefined\<close>.
\<close>

datatype js_value = JUndefined | JString string | JNumber nat | JArray "string list"

type_synonym js_object = "(string \<times> js_value) list"

definition property :: "js_object \<Rightarrow> string \<Rightarrow> js_value" where
  "property obj name = (case map_of obj name of None \<Rightarrow> JUndefined | Some v \<Rightarrow> v)"

fun js_opt :: "string option \<Rightarrow> js_value" where
  "js_opt None = JUndefined"
| "js_opt (Some s) = JString s"

definition cityObject :: "ProcessedCity \<Rightarrow> js_object" where
  "cityObject city =
     [(''id'', JString (pc_id city)),
      (''city'', JString (pc_city city)),
      (''slug'', JString (pc_slug city)),
      (''state_id'', JString (pc_state_id city)),
      (''state_name'', js_opt (pc_state_name city)),
      (''salon_ids'', JArray (pc_salon_ids city))]"

definition stateObject :: "ProcessedState \<Rightarrow> js_object" where
  "stateObject state =
     [(''id'', JString (pst_id state)),
      (''state'', JString (pst_state state)),
      (''slug'', JString (pst_slug state)),
      (''city_ids'', JArray (pst_city_ids state)),
      (''salon_ids'', JArray (pst_salon_ids state))]"

definition categoryObject :: "ProcessedCategory \<Rightarrow> js_object" where
  "categoryObject category =
     [(''id'', JString (pcat_id category)),
      (''category'', JString (pcat_category category)),
      (''slug'', JString (pcat_slug category)),
      (''salon_ids'', JArray (pcat_salon_ids category))]"

section \<open>Company sitemaps\<close>

text \<open>A non-negative integer in a template literal: its decimal digits.\<close>

definition digit_char :: "nat \<Rightarrow> char" where
  "digit_char d = char_of (48 + d)"

function show_nat :: "nat \<Rightarrow> string" where
  "show_nat n = (if n < 10 then [digit_char n] else show_nat (n div 10) @ [digit_char (n mod 10)])"
  by pat_completeness auto
termination
  by (relation "measure (\<lambda>n. n)") auto

declare show_nat.simps [simp del]

definition baseUrl :: string where
  "baseUrl = ''https://electrolysisdirectory.com''"

definition url_entry :: "ProcessedSalon \<Rightarrow> string" where
  "url_entry salon =
     ''  <url>'' @ [CHR 0x0A] @
     ''    <loc>'' @ baseUrl @ ''/companies/'' @ ps_slug salon @ ''/</loc>'' @ [CHR 0x0A] @
     ''    <changefreq>monthly</changefreq>'' @ [CHR 0x0A] @
     ''    <priority>0.8</priority>'' @ [CHR 0x0A] @
     ''  </url>'' @ [CHR 0x0A]"

definition sitemapXml :: "ProcessedSalon list \<Rightarrow> string" where
  "sitemapXml chunk =
     ''<?xml version='' @ [CHR 0x22] @ ''1.0'' @ [CHR 0x22] @
       '' encoding='' @ [CHR 0x22] @ ''UTF-8'' @ [CHR 0x22] @ ''?>'' @ [CHR 0x0A] @
     ''<urlset xmlns='' @ [CHR 0x22] @ ''http://www.sitemaps.org/schemas/sitemap/0.9'' @ [CHR 0x22] @
       ''>'' @ [CHR 0x0A] @
     concat (map url_entry chunk) @
     ''</urlset>''"

text \<open>\<^verbatim>\<open>salons.slice(i, j)\<close> for \<open>0 \<le> i \<le> j\<close>.\<close>

definition slice :: "'a list \<Rightarrow> nat \<Rightarrow> nat \<Rightarrow> 'a list" where
  "slice xs i j = take (j - i) (drop i xs)"

definition sitemap_filename :: "nat \<Rightarrow> string" where
  "sitemap_filename sitemapIndex = ''companies-sitemap'' @ show_nat sitemapIndex @ ''.xml''"

text \<open>
  The loop \<^verbatim>\<open>for (let i = 0; i < salons.length; i += 200)\<close>; each round writes one file,
  given here as the pair of its name and its content, in the order of the writes.
\<close>

function company_sitemaps_from :: "nat \<Rightarrow> ProcessedSalon list \<Rightarrow> (string \<times> string) list" where
  "company_sitemaps_from i salons =
     (if i < length salons
      then (let chunk = slice salons i (i + 200);
                sitemapIndex = i div 200 + 1
            in (sitemap_filename sitemapIndex, sitemapXml chunk) # company_sitemaps_from (i + 200) salons)
      else [])"
  by pat_completeness auto
termination
  by (relation "measure (\<lambda>(i, salons). length salons - i)") auto

declare company_sitemaps_from.simps [simp del]

definition company_sitemaps :: "ProcessedSalon list \<Rightarrow> (string \<times> string) list" where
  "company_sitemaps salons = company_sitemaps_from 0 salons"

text \<open>\<^verbatim>\<open>fs.writeFileSync\<close> on a directory: a later write to the same name replaces the file.\<close>

definition write_files :: "(string \<times> string) list \<Rightarrow> (string \<rightharpoonup> string) \<Rightarrow> (string \<rightharpoonup> string)" where
  "write_files ws dir = foldl (\<lambda>d (name, content). d(name \<mapsto> content)) dir ws"

section \<open>The pipeline\<close>

record generated =
  out_tables :: tables
  processedSalons :: "ProcessedSalon list"
  processedCities :: "ProcessedCity list"
  processedStates :: "ProcessedState list"
  processedCategories :: "ProcessedCategory list"
  companySitemaps :: "(string \<times> string) list"

definition generateHTML ::
  "(string \<Rightarrow> string) \<Rightarrow> (string \<Rightarrow> string) \<Rightarrow> (string \<Rightarrow> string) \<Rightarrow> tables \<Rightarrow> error + generated" where
  "generateHTML trim toLowerCase slugify t0 =
     (let cm = citiesMap (cities t0);
          sm = statesMap (states t0);
          catm = categoriesMap (categories t0)
      in bindE (resolve trim toLowerCase t0) (\<lambda>t1.
         bindE (aggregate cm sm catm t1) (\<lambda>t.
           (let pss = map (processSalon slugify) (beautySalons t);
                pcs = map (processCity toLowerCase slugify pss) (cities t);
                psts = map (processState toLowerCase slugify pss pcs) (states t);
                pcats = map (processCategory slugify pss) (categories t)
            in Inr \<lparr> out_tables = t,
                     processedSalons = pss,
                     processedCities = pcs,
                     processedStates = psts,
                     processedCategories = pcats,
                     companySitemaps = company_sitemaps pss \<rparr>))))"

section \<open>Notions used to state the properties\<close>

text \<open>
  What it means for a list of segments to be the comma-split of a multi-value field: an
  unset field has no segments; otherwise the segments contain no comma, and joined with
  commas they give the field back.
\<close>

definition is_comma_split :: "string option \<Rightarrow> string list \<Rightarrow> bool" where
  "is_comma_split field segs =
     (case field of
        None \<Rightarrow> segs = []
      | Some s \<Rightarrow>
          if s = [] then segs = []
          else str_join CHR '','' segs = s \<and> segs \<noteq> [] \<and>
               (\<forall>seg \<in> set segs. CHR '','' \<notin> set seg))"

text \<open>
  The linear search of the inference step, as a search: the first entry of the map, in the
  order of the map, whose object has the candidate name up to letter case, that is, whose
  name and the candidate are equal once \<^verbatim>\<open>toLowerCase\<close> is applied to both. An entry
  is a key together with the position of the object in its array.
\<close>

definition name_matches ::
  "(string \<Rightarrow> string) \<Rightarrow> ('a \<Rightarrow> string) \<Rightarrow> 'a list \<Rightarrow> string \<Rightarrow> string \<times> nat \<Rightarrow> bool" where
  "name_matches toLowerCase name xs candidate e =
     (toLowerCase (name (xs ! snd e)) = toLowerCase candidate)"

definition first_match ::
  "(string \<Rightarrow> string) \<Rightarrow> ('a \<Rightarrow> string) \<Rightarrow> 'a list \<Rightarrow> nat js_map \<Rightarrow> string \<Rightarrow>
   (string \<times> nat) option" where
  "first_match toLowerCase name xs m candidate = find (name_matches toLowerCase name xs candidate) m"

text \<open>
  The cardinalities the counts are compared with. A salon refers to a city or a state when
  the field is set and equals the id; a city refers to a state in the same way. The
  category ids of a salon are counted with their repetitions.
\<close>

definition salons_with_city :: "BeautySalon list \<Rightarrow> string \<Rightarrow> nat" where
  "salons_with_city ss cid = length (filter (\<lambda>s. truthy_and (s_city_id s) (\<lambda>k. k = cid)) ss)"

definition salons_with_state :: "BeautySalon list \<Rightarrow> string \<Rightarrow> nat" where
  "salons_with_state ss sid = length (filter (\<lambda>s. truthy_and (s_state_id s) (\<lambda>k. k = sid)) ss)"

definition cities_with_state :: "City list \<Rightarrow> string \<Rightarrow> nat" where
  "cities_with_state cs sid = length (filter (\<lambda>c. c_state_id c \<noteq> [] \<and> c_state_id c = sid) cs)"

definition category_occurrences :: "BeautySalon list \<Rightarrow> string \<Rightarrow> nat" where
  "category_occurrences ss catid =
     count_list (concat (map (\<lambda>s. split_field (s_category_ids s)) ss)) catid"

text \<open>
  No count was loaded into a field: the table has no such column, or the cell is empty.
  Such a field, counted up \<open>n\<close> times, is the number \<open>n\<close>, or is left as it was when
  \<open>n\<close> is 0, since the code only ever writes a count by adding one to it.
\<close>

fun no_count :: "counter \<Rightarrow> bool" where
  "no_count Unset = True"
| "no_count (Cell s) = (s = [])"
| "no_count (Count n) = False"

definition counted :: "counter \<Rightarrow> nat \<Rightarrow> counter" where
  "counted field n = (if n = 0 then field else Count n)"

text \<open>Reading a count field with \<^verbatim>\<open>(x || 0)\<close>.\<close>

fun or0 :: "counter \<Rightarrow> counter" where
  "or0 Unset = Count 0"
| "or0 (Cell s) = (if s = [] then Count 0 else Cell s)"
| "or0 (Count n) = Count n"

text \<open>
  The row at position \<open>i\<close> is the one the lookup map holds for its id: no later row has
  the same id. With ids that are unique this is every row.
\<close>

definition held :: "string list \<Rightarrow> nat \<Rightarrow> bool" where
  "held ids i = (ids ! i \<notin> set (drop (Suc i) ids))"


text \<open>The file of the \<open>m\<close>-th chunk of 200 salons, counted from 0.\<close>

definition chunk_file :: "ProcessedSalon list \<Rightarrow> nat \<Rightarrow> string \<times> string" where
  "chunk_file salons m =
     (sitemap_filename (m + 1), sitemapXml (take 200 (drop (200 * m) salons)))"

text \<open>
  Reading a sitemap file back: its entries are the contents of the \<^verbatim>\<open>loc\<close> elements,
  one per line of that form, in the order of the file. \<open>company_url\<close> is the address a
  salon's entry is to carry.
\<close>

definition strip_prefix :: "string \<Rightarrow> string \<Rightarrow> string option" where
  "strip_prefix p s = (if take (length p) s = p then Some (drop (length p) s) else None)"

definition strip_suffix :: "string \<Rightarrow> string \<Rightarrow> string option" where
  "strip_suffix q s =
     (if length q \<le> length s \<and> drop (length s - length q) s = q
      then Some (take (length s - length q) s) else None)"

definition loc_of_line :: "string \<Rightarrow> string option" where
  "loc_of_line l =
     (case strip_prefix ''    <loc>'' l of
        None \<Rightarrow> None
      | Some r \<Rightarrow> strip_suffix ''</loc>'' r)"

definition sitemap_locs :: "string \<Rightarrow> string list" where
  "sitemap_locs xml = List.map_filter loc_of_line (str_split (CHR 0x0A) xml)"

definition company_url :: "ProcessedSalon \<Rightarrow> string" where
  "company_url salon = ''https://electrolysisdirectory.com/companies/'' @ ps_slug salon @ ''/''"

section \<open>Normal forms of the passes\<close>

text \<open>
  The passes written without the error monad; the lemmas below show that the code computes
  exactly these, so that it never raises. \<open>bump\<close> is the write through a map entry,
  and a \<open>hit\<close> is the position, if any, that a row makes the code write to.
\<close>

definition bump :: "('a \<Rightarrow> 'a) \<Rightarrow> nat option \<Rightarrow> 'a list \<Rightarrow> 'a list" where
  "bump f h xs = (case h of None \<Rightarrow> xs | Some i \<Rightarrow> xs[i := f (xs ! i)])"

definition state_name_of :: "State list \<Rightarrow> nat js_map \<Rightarrow> City \<Rightarrow> City" where
  "state_name_of sts sm city =
     (case (if c_state_id city \<noteq> [] then map_get sm (c_state_id city) else None) of
        None \<Rightarrow> city
      | Some j \<Rightarrow> city\<lparr>c_state_name := Some (st_state (sts ! j))\<rparr>)"

definition link_city :: "City list \<Rightarrow> (string \<times> nat) option \<Rightarrow> BeautySalon \<Rightarrow> BeautySalon" where
  "link_city cs h salon =
     (case h of
        None \<Rightarrow> salon
      | Some e \<Rightarrow> salon\<lparr>s_city_id := Some (fst e), s_city_name := Some (c_city (cs ! snd e))\<rparr>)"

definition link_state :: "State list \<Rightarrow> (string \<times> nat) option \<Rightarrow> BeautySalon \<Rightarrow> BeautySalon" where
  "link_state sts h salon =
     (case h of
        None \<Rightarrow> salon
      | Some e \<Rightarrow> salon\<lparr>s_state_id := Some (fst e), s_state_name := Some (st_state (sts ! snd e))\<rparr>)"

definition salon_city_hit :: "nat js_map \<Rightarrow> BeautySalon \<Rightarrow> nat option" where
  "salon_city_hit cm salon =
     (case s_city_id salon of None \<Rightarrow> None | Some k \<Rightarrow> if k \<noteq> [] then map_get cm k else None)"

definition salon_state_hit :: "nat js_map \<Rightarrow> BeautySalon \<Rightarrow> nat option" where
  "salon_state_hit sm salon =
     (case s_state_id salon of None \<Rightarrow> None | Some k \<Rightarrow> if k \<noteq> [] then map_get sm k else None)"

definition city_state_hit :: "nat js_map \<Rightarrow> City \<Rightarrow> nat option" where
  "city_state_hit sm city = (if c_state_id city \<noteq> [] then map_get sm (c_state_id city) else None)"

definition count_salon_pure :: "nat js_map \<Rightarrow> nat js_map \<Rightarrow> nat js_map \<Rightarrow> BeautySalon \<Rightarrow> tables \<Rightarrow> tables" where
  "count_salon_pure cm sm catm salon t =
     t\<lparr>cities := bump inc_city_salon_count (salon_city_hit cm salon) (cities t),
       states := bump inc_state_salon_count (salon_state_hit sm salon) (states t),
       categories := fold (\<lambda>k. bump inc_category_salon_count (map_get catm k))
                       (split_field (s_category_ids salon)) (categories t)\<rparr>"

definition aggregate_pure :: "nat js_map \<Rightarrow> nat js_map \<Rightarrow> nat js_map \<Rightarrow> tables \<Rightarrow> tables" where
  "aggregate_pure cm sm catm t =
     t\<lparr>cities := fold (\<lambda>s. bump inc_city_salon_count (salon_city_hit cm s)) (beautySalons t) (cities t),
       states := fold (\<lambda>c. bump inc_state_city_count (city_state_hit sm c))
                   (fold (\<lambda>s. bump inc_city_salon_count (salon_city_hit cm s)) (beautySalons t) (cities t))
                   (fold (\<lambda>s. bump inc_state_salon_count (salon_state_hit sm s)) (beautySalons t) (states t)),
       categories := fold (\<lambda>k. bump inc_category_salon_count (map_get catm k))
                       (concat (map (\<lambda>s. split_field (s_category_ids s)) (beautySalons t))) (categories t)\<rparr>"

definition resolved :: "(string \<Rightarrow> string) \<Rightarrow> (string \<Rightarrow> string) \<Rightarrow> tables \<Rightarrow> tables" where
  "resolved trim toLowerCase t =
     t\<lparr>cities := map (state_name_of (states t) (statesMap (states t))) (cities t),
       beautySalons :=
         infer trim toLowerCase (map (state_name_of (states t) (statesMap (states t))) (cities t))
           (states t) (citiesMap (cities t)) (statesMap (states t)) (beautySalons t)\<rparr>"

definition aggregated :: "(string \<Rightarrow> string) \<Rightarrow> (string \<Rightarrow> string) \<Rightarrow> tables \<Rightarrow> tables" where
  "aggregated trim toLowerCase t0 =
     aggregate_pure (citiesMap (cities t0)) (statesMap (states t0)) (categoriesMap (categories t0))
       (resolved trim toLowerCase t0)"

definition project :: "(string \<Rightarrow> string) \<Rightarrow> (string \<Rightarrow> string) \<Rightarrow> tables \<Rightarrow> generated" where
  "project toLowerCase slugify t =
     \<lparr> out_tables = t,
       processedSalons = map (processSalon slugify) (beautySalons t),
       processedCities =
         map (processCity toLowerCase slugify (map (processSalon slugify) (beautySalons t))) (cities t),
       processedStates =
         map (processState toLowerCase slugify (map (processSalon slugify) (beautySalons t))
                (map (processCity toLowerCase slugify (map (processSalon slugify) (beautySalons t)))
                   (cities t)))
             (states t),
       processedCategories =
         map (processCategory slugify (map (processSalon slugify) (beautySalons t))) (categories t),
       companySitemaps = company_sitemaps (map (processSalon slugify) (beautySalons t)) \<rparr>"

text \<open>The number a string of decimal digits stands for.\<close>

definition digits_value :: "string \<Rightarrow> nat" where
  "digits_value s = foldl (\<lambda>a c. 10 * a + (of_char c - 48)) 0 s"

section \<open>Fixtures\<close>

text \<open>
  The built-ins on strings of ASCII characters, for the fixtures, which are such strings:
  there \<^verbatim>\<open>toLowerCase\<close> changes the letters A to Z and nothing else, and \<^verbatim>\<open>trim\<close>
  removes tab, line feed, vertical tab, form feed, carriage return and blank at both ends.
  \<open>plain_slug\<close> stands in for the library's slug function where a concrete one is
  needed.
\<close>

definition ascii_lower_char :: "char \<Rightarrow> char" where
  "ascii_lower_char c =
     (let n = (of_char c :: nat) in if 65 \<le> n \<and> n \<le> 90 then char_of (n + 32) else c)"

definition ascii_toLowerCase :: "string \<Rightarrow> string" where
  "ascii_toLowerCase s = map ascii_lower_char s"

definition ascii_space :: "char \<Rightarrow> bool" where
  "ascii_space c = ((of_char c :: nat) \<in> {9, 10, 11, 12, 13, 32})"

definition ascii_trim :: "string \<Rightarrow> string" where
  "ascii_trim s = rev (dropWhile ascii_space (rev (dropWhile ascii_space s)))"

definition plain_slug :: "string \<Rightarrow> string" where
  "plain_slug s = s"

text \<open>
  Two salons, one city, one state and one category: salon A carries its city and state
  ids, salon B only an address that names the city and the state. A third salon, used on
  its own, carries a state name and nothing else.
\<close>

definition blank_salon :: "string \<Rightarrow> string \<Rightarrow> BeautySalon" where
  "blank_salon i title =
     \<lparr> s_id = i, s_title = title, s_website = None, s_telephone = None, s_address = None,
       s_postal_code = None, s_latitude = None, s_longitude = None, s_email = None,
       s_opening_hours = None, s_description = None, s_service_product = None,
       s_reviews = None, s_average_star = None, s_city_id = None, s_city_name = None,
       s_state_id = None, s_state_name = None, s_category_ids = None, s_detail_keys = None,
       s_detail_values = None, s_amenity_ids = None, s_payment_ids = None, s_images = None \<rparr>"

definition salon_A :: BeautySalon where
  "salon_A = (blank_salon ''1'' ''Alpha'')
     \<lparr> s_city_id := Some ''10'', s_city_name := Some ''Springfield'',
       s_state_id := Some ''20'', s_state_name := Some ''Illinois'',
       s_category_ids := Some ''a,b,c'' \<rparr>"

definition salon_B :: BeautySalon where
  "salon_B = (blank_salon ''2'' ''Beta'')
     \<lparr> s_address := Some ''123 Main St, Springfield, Illinois, USA'',
       s_category_ids := Some ''a, b'' \<rparr>"

definition salon_C :: BeautySalon where
  "salon_C = (blank_salon ''3'' ''Gamma'') \<lparr> s_state_name := Some ''illinois'' \<rparr>"

definition springfield :: City where
  "springfield = \<lparr> c_id = ''10'', c_city = ''Springfield'', c_state_id = ''20'',
     c_state_name = None, c_salon_count = Unset \<rparr>"

definition illinois :: State where
  "illinois = \<lparr> st_id = ''20'', st_state = ''Illinois'', st_city_count = Unset,
     st_salon_count = Unset \<rparr>"

definition category_b :: Category where
  "category_b = \<lparr> cat_id = ''b'', cat_category = ''Electrolysis'', cat_salon_count = Unset \<rparr>"

definition fixture :: tables where
  "fixture = \<lparr> beautySalons = [salon_A, salon_B], cities = [springfield],
     states = [illinois], categories = [category_b] \<rparr>"

definition fixture_name_only :: tables where
  "fixture_name_only = \<lparr> beautySalons = [salon_C], cities = [springfield],
     states = [illinois], categories = [category_b] \<rparr>"







text \<open>
  Tables in which an id occurs twice: two city rows with the id of salon A's city. And
  tables loaded with a count column: the city's cell holds \<open>5\<close>.
\<close>

definition old_springfield :: City where
  "old_springfield = \<lparr> c_id = ''10'', c_city = ''Old Springfield'', c_state_id = ''20'',
     c_state_name = None, c_salon_count = Unset \<rparr>"

definition repeated_id_tables :: tables where
  "repeated_id_tables =
     \<lparr> beautySalons = [salon_A], cities = [old_springfield, springfield],
       states = [illinois], categories = [category_b] \<rparr>"

definition counted_springfield :: City where
  "counted_springfield = \<lparr> c_id = ''10'', c_city = ''Springfield'', c_state_id = ''20'',
     c_state_name = None, c_salon_count = Cell ''5'' \<rparr>"

definition loaded_count_tables :: tables where
  "loaded_count_tables =
     \<lparr> beautySalons = [salon_A], cities = [counted_springfield],
       states = [illinois], categories = [category_b] \<rparr>"

section \<open>Splitting and joining\<close>

lemma str_split_not_Nil: "str_split sep s \<noteq> []"
  by (induction s) (auto split: list.splits)

lemma str_join_Cons: "segs \<noteq> [] \<Longrightarrow> str_join sep (seg # segs) = seg @ sep # str_join sep segs"
  by (cases segs) auto

lemma str_join_split: "str_join sep (str_split sep s) = s"
proof (induction s)
  case Nil
  show ?case by simp
next
  case (Cons c cs)
  show ?case
  proof (cases "c = sep")
    case True
    with Cons show ?thesis by (simp add: str_join_Cons str_split_not_Nil)
  next
    case False
    obtain seg segs where e: "str_split sep cs = seg # segs"
      using str_split_not_Nil [of sep cs] by (cases "str_split sep cs") auto
    with Cons False show ?thesis by (cases segs) auto
  qed
qed

lemma str_split_no_sep: "seg \<in> set (str_split sep s) \<Longrightarrow> sep \<notin> set seg"
  by (induction s arbitrary: seg) (auto split: if_splits list.splits)

section \<open>The lookup maps\<close>

text \<open>
  Looking a key up gives the position of the last row with that id; the keys stand in the
  order of their first occurrence.
\<close>

lemma map_of_map_set: "map_of (map_set m k v) = (map_of m)(k \<mapsto> v)"
  by (induction m k v rule: map_set.induct) (auto simp: fun_eq_iff)

lemma map_of_foldl_map_set:
  "map_of (foldl (\<lambda>m (k, v). map_set m k v) m es) k =
     (case map_of (rev es) k of None \<Rightarrow> map_of m k | Some v \<Rightarrow> Some v)"
proof (induction es arbitrary: m)
  case Nil
  show ?case by simp
next
  case (Cons e es)
  obtain k' v' where e: "e = (k', v')" by (cases e)
  show ?case
    by (simp add: e Cons map_of_map_set map_add_def split: option.splits)
qed

lemma map_of_new_Map: "map_of (new_Map es) = map_of (rev es)"
  by (rule ext) (simp add: new_Map_def map_of_foldl_map_set split: option.splits)

lemma map_of_index_map_snoc:
  "map_of (index_map (xs @ [x])) k = (if k = x then Some (length xs) else map_of (index_map xs) k)"
proof -
  have z: "zip (xs @ [x]) [0..<length (xs @ [x])] = zip xs [0..<length xs] @ [(x, length xs)]"
    by simp
  show ?thesis unfolding index_map_def map_of_new_Map z by simp
qed

lemma map_of_index_map:
  "map_of (index_map ids) k = Some i \<longleftrightarrow>
     i < length ids \<and> ids ! i = k \<and> (\<forall>j. i < j \<and> j < length ids \<longrightarrow> ids ! j \<noteq> k)"
proof (induction ids arbitrary: i rule: rev_induct)
  case Nil
  show ?case by (simp add: index_map_def new_Map_def)
next
  case (snoc x xs)
  show ?case
  proof (cases "k = x")
    case True
    have "(i < length (xs @ [x]) \<and> (xs @ [x]) ! i = k \<and>
            (\<forall>j. i < j \<and> j < length (xs @ [x]) \<longrightarrow> (xs @ [x]) ! j \<noteq> k)) \<longleftrightarrow> i = length xs"
    proof
      assume a: "i < length (xs @ [x]) \<and> (xs @ [x]) ! i = k \<and>
            (\<forall>j. i < j \<and> j < length (xs @ [x]) \<longrightarrow> (xs @ [x]) ! j \<noteq> k)"
      show "i = length xs"
      proof (rule ccontr)
        assume "i \<noteq> length xs"
        with a have "i < length xs" by simp
        moreover from a have "i < length xs \<and> length xs < length (xs @ [x]) \<longrightarrow> (xs @ [x]) ! length xs \<noteq> k"
          by blast
        ultimately have "(xs @ [x]) ! length xs \<noteq> k" by simp
        with True show False by simp
      qed
    next
      assume "i = length xs"
      with True show "i < length (xs @ [x]) \<and> (xs @ [x]) ! i = k \<and>
            (\<forall>j. i < j \<and> j < length (xs @ [x]) \<longrightarrow> (xs @ [x]) ! j \<noteq> k)" by auto
    qed
    moreover have "map_of (index_map (xs @ [x])) k = Some i \<longleftrightarrow> i = length xs"
      using True by (auto simp: map_of_index_map_snoc)
    ultimately show ?thesis by blast
  next
    case False
    have "(i < length (xs @ [x]) \<and> (xs @ [x]) ! i = k \<and>
            (\<forall>j. i < j \<and> j < length (xs @ [x]) \<longrightarrow> (xs @ [x]) ! j \<noteq> k)) \<longleftrightarrow>
          (i < length xs \<and> xs ! i = k \<and> (\<forall>j. i < j \<and> j < length xs \<longrightarrow> xs ! j \<noteq> k))"
      (is "?L \<longleftrightarrow> ?R")
    proof
      assume l: ?L
      have i: "i < length xs"
      proof (rule ccontr)
        assume "\<not> i < length xs"
        with l have "i = length xs" by simp
        with l False show False by simp
      qed
      have "\<forall>j. i < j \<and> j < length xs \<longrightarrow> xs ! j \<noteq> k"
      proof (intro allI impI)
        fix j assume j: "i < j \<and> j < length xs"
        with l have "(xs @ [x]) ! j \<noteq> k" by simp
        with j show "xs ! j \<noteq> k" by (simp add: nth_append)
      qed
      with i l show ?R by (simp add: nth_append)
    next
      assume r: ?R
      have "\<forall>j. i < j \<and> j < length (xs @ [x]) \<longrightarrow> (xs @ [x]) ! j \<noteq> k"
      proof (intro allI impI)
        fix j assume j: "i < j \<and> j < length (xs @ [x])"
        show "(xs @ [x]) ! j \<noteq> k"
        proof (cases "j < length xs")
          case True
          with r j show ?thesis by (simp add: nth_append)
        next
          case False
          with j have "j = length xs" by simp
          with \<open>k \<noteq> x\<close> show ?thesis by simp
        qed
      qed
      with r show ?L by (simp add: nth_append)
    qed
    moreover have "map_of (index_map (xs @ [x])) k = map_of (index_map xs) k"
      using False by (simp add: map_of_index_map_snoc)
    ultimately show ?thesis using snoc [of i] by presburger
  qed
qed

lemma map_has_index_map: "map_has (index_map ids) k \<longleftrightarrow> k \<in> set ids"
proof (induction ids rule: rev_induct)
  case Nil
  show ?case by (simp add: index_map_def new_Map_def map_has_def)
next
  case (snoc x xs)
  show ?case using snoc by (auto simp: map_has_def map_of_index_map_snoc)
qed

lemma map_get_index_map_distinct:
  "distinct ids \<Longrightarrow> map_get (index_map ids) k = Some i \<longleftrightarrow> i < length ids \<and> ids ! i = k"
proof -
  assume d: "distinct ids"
  have "i < length ids \<and> ids ! i = k \<Longrightarrow> (\<forall>j. i < j \<and> j < length ids \<longrightarrow> ids ! j \<noteq> k)"
    using d by (auto simp: nth_eq_iff_index_eq)
  then show ?thesis unfolding map_get_def map_of_index_map by blast
qed

section \<open>Passes that cannot fail\<close>

lemma bindE_Inr [simp]: "bindE (Inr x) f = f x"
  by (simp add: bindE_def)

lemma bindE_Inl [simp]: "bindE (Inl e) f = Inl e"
  by (simp add: bindE_def)

lemma mapE_pure: "(\<And>x. x \<in> set xs \<Longrightarrow> f x = Inr (g x)) \<Longrightarrow> mapE f xs = Inr (map g xs)"
  by (induction xs) auto

lemma foldE_pure: "(\<And>x s. f x s = Inr (g x s)) \<Longrightarrow> foldE f xs s = Inr (fold g xs s)"
  by (induction xs arbitrary: s) auto

lemma map_has_get: "map_has m k \<longleftrightarrow> map_get m k \<noteq> None"
  by (simp add: map_has_def map_get_def)

lemma length_bump [simp]: "length (bump f h xs) = length xs"
  by (simp add: bump_def split: option.splits)

lemma nth_bump: "i < length xs \<Longrightarrow> bump f h xs ! i = (if h = Some i then f (xs ! i) else xs ! i)"
  by (auto simp: bump_def split: option.splits)

lemma length_fold_bump [simp]: "length (fold (\<lambda>x. bump f (h x)) ys xs) = length xs"
  by (induction ys arbitrary: xs) auto

lemma nth_fold_bump:
  "i < length xs \<Longrightarrow>
   fold (\<lambda>x. bump f (h x)) ys xs ! i = (f ^^ length (filter (\<lambda>x. h x = Some i) ys)) (xs ! i)"
proof (induction ys arbitrary: xs)
  case Nil
  show ?case by simp
next
  case (Cons y ys)
  have "fold (\<lambda>x. bump f (h x)) (y # ys) xs ! i =
        (f ^^ length (filter (\<lambda>x. h x = Some i) ys)) (bump f (h y) xs ! i)"
    using Cons by simp
  also have "\<dots> = (f ^^ length (filter (\<lambda>x. h x = Some i) (y # ys))) (xs ! i)"
    using Cons.prems by (simp add: nth_bump funpow_swap1)
  finally show ?case .
qed

section \<open>State-name backfill\<close>

lemma backfill_city_pure: "backfill_city sts sm city = Inr (state_name_of sts sm city)"
  by (auto simp: backfill_city_def state_name_of_def map_has_get split: option.splits)

lemma backfill_pure: "backfill sts sm cs = Inr (map (state_name_of sts sm) cs)"
  unfolding backfill_def by (rule mapE_pure) (rule backfill_city_pure)

lemma map_get_statesMap:
  "map_get (statesMap sts) k = Some j \<longleftrightarrow>
     j < length sts \<and> st_id (sts ! j) = k \<and> (\<forall>j'. j < j' \<and> j' < length sts \<longrightarrow> st_id (sts ! j') \<noteq> k)"
  unfolding map_get_def statesMap_def map_of_index_map by auto

lemma map_has_statesMap: "map_has (statesMap sts) k \<longleftrightarrow> k \<in> set (map st_id sts)"
  by (simp add: statesMap_def map_has_index_map)

text \<open>
  Claim C5. The backfill returns without an error and keeps the number of cities. A city
  whose \<open>state_id\<close> is non-empty and is the id of some state comes out as the same city
  with \<open>state_name\<close> set to the name of the state with that id (the last such state of
  the table, should an id occur twice). Every other city, with an empty or unmatched
  \<open>state_id\<close>, comes out unchanged, so its \<open>state_name\<close> stays as it was.
\<close>

theorem backfill_state_name:
  "\<exists>cs'. backfill sts (statesMap sts) cs = Inr cs' \<and> length cs' = length cs \<and>
     (\<forall>i<length cs.
        if c_state_id (cs ! i) \<noteq> [] \<and> c_state_id (cs ! i) \<in> set (map st_id sts)
        then \<exists>j<length sts.
               st_id (sts ! j) = c_state_id (cs ! i) \<and>
               (\<forall>j'. j < j' \<and> j' < length sts \<longrightarrow> st_id (sts ! j') \<noteq> c_state_id (cs ! i)) \<and>
               cs' ! i = (cs ! i)\<lparr>c_state_name := Some (st_state (sts ! j))\<rparr>
        else cs' ! i = cs ! i)"
proof (intro exI conjI allI impI)
  show "backfill sts (statesMap sts) cs = Inr (map (state_name_of sts (statesMap sts)) cs)"
    by (rule backfill_pure)
  show "length (map (state_name_of sts (statesMap sts)) cs) = length cs" by simp
next
  fix i assume i: "i < length cs"
  let ?c = "cs ! i"
  show "if c_state_id ?c \<noteq> [] \<and> c_state_id ?c \<in> set (map st_id sts)
        then \<exists>j<length sts.
               st_id (sts ! j) = c_state_id ?c \<and>
               (\<forall>j'. j < j' \<and> j' < length sts \<longrightarrow> st_id (sts ! j') \<noteq> c_state_id ?c) \<and>
               map (state_name_of sts (statesMap sts)) cs ! i = ?c\<lparr>c_state_name := Some (st_state (sts ! j))\<rparr>
        else map (state_name_of sts (statesMap sts)) cs ! i = ?c"
  proof (cases "c_state_id ?c \<noteq> [] \<and> c_state_id ?c \<in> set (map st_id sts)")
    case True
    then have "map_has (statesMap sts) (c_state_id ?c)" by (simp only: map_has_statesMap)
    then obtain j where j: "map_get (statesMap sts) (c_state_id ?c) = Some j"
      by (auto simp: map_has_get)
    then have "state_name_of sts (statesMap sts) ?c = ?c\<lparr>c_state_name := Some (st_state (sts ! j))\<rparr>"
      using True by (simp add: state_name_of_def)
    with j [unfolded map_get_statesMap] i True show ?thesis by auto
  next
    case False
    then have "c_state_id ?c = [] \<or> map_get (statesMap sts) (c_state_id ?c) = None"
      using map_has_statesMap [of sts "c_state_id ?c"] by (auto simp: map_has_get)
    then have "state_name_of sts (statesMap sts) ?c = ?c"
      by (auto simp: state_name_of_def)
    with i False show ?thesis by auto
  qed
qed

theorem backfill_state_name_witness:
  "\<exists>cs'. backfill [illinois] (statesMap [illinois]) [springfield] = Inr cs' \<and>
     c_state_name (cs' ! 0) = Some ''Illinois''"
  using backfill_state_name [of "[illinois]" "[springfield]"]
  by (auto simp: illinois_def springfield_def)

section \<open>Multi-value fields\<close>

lemma split_field_is_comma_split: "is_comma_split field (split_field field)"
  by (cases field)
     (auto simp: is_comma_split_def split_field_def str_join_split str_split_not_Nil
           dest: str_split_no_sep)

text \<open>
  Claim C8. In the salon projection each of the six multi-value fields
  (\<open>category_ids\<close>, \<open>detail_keys\<close>, \<open>detail_values\<close>, \<open>amenity_ids\<close>,
  \<open>payment_ids\<close>, \<open>images\<close>) is the comma-split of the salon's field: the segments
  in order, free of commas, joining back to the field, and the empty list for an absent or
  empty field. In particular the empty string gives no segment at all, and \<open>a,b,c\<close>
  gives the three segments \<open>a\<close>, \<open>b\<close>, \<open>c\<close>.
\<close>

theorem multi_value_split:
  "is_comma_split (s_category_ids salon) (ps_category_ids (processSalon slugify salon)) \<and>
   is_comma_split (s_detail_keys salon) (ps_detail_keys (processSalon slugify salon)) \<and>
   is_comma_split (s_detail_values salon) (ps_detail_values (processSalon slugify salon)) \<and>
   is_comma_split (s_amenity_ids salon) (ps_amenity_ids (processSalon slugify salon)) \<and>
   is_comma_split (s_payment_ids salon) (ps_payment_ids (processSalon slugify salon)) \<and>
   is_comma_split (s_images salon) (ps_images (processSalon slugify salon)) \<and>
   split_field None = [] \<and> split_field (Some '''') = [] \<and>
   split_field (Some ''a,b,c'') = [''a'', ''b'', ''c'']"
  by (simp add: processSalon_def Let_def split_field_is_comma_split) (simp add: split_field_def)

theorem multi_value_split_witness:
  "truthy (s_category_ids salon_A) \<and> \<not> truthy (s_images salon_A) \<and>
   str_join CHR '','' (ps_category_ids (processSalon plain_slug salon_A)) = ''a,b,c'' \<and>
   ps_images (processSalon plain_slug salon_A) = []"
  using multi_value_split [of salon_A plain_slug]
  by (simp add: is_comma_split_def salon_A_def blank_salon_def)

section \<open>Address-based link inference\<close>

lemma find_city_link:
  "find_city toLowerCase cs es cityName salon = link_city cs (first_match toLowerCase c_city cs es cityName) salon"
  by (induction toLowerCase cs es cityName salon rule: find_city.induct)
     (simp_all add: link_city_def first_match_def name_matches_def)

lemma find_state_link:
  "find_state toLowerCase sts es stateName salon = link_state sts (first_match toLowerCase st_state sts es stateName) salon"
  by (induction toLowerCase sts es stateName salon rule: find_state.induct)
     (simp_all add: link_state_def first_match_def name_matches_def)













subsection \<open>Running resolution twice\<close>

lemma infer_salon_idem:
  "infer_salon trim toLowerCase cs sts cm sm (infer_salon trim toLowerCase cs sts cm sm salon) = infer_salon trim toLowerCase cs sts cm sm salon"
  by (auto simp: infer_salon_def Let_def find_city_link find_state_link link_city_def link_state_def
           split: option.splits)

lemma state_name_of_idem:
  "state_name_of sts sm (state_name_of sts sm city) = state_name_of sts sm city"
  by (auto simp: state_name_of_def split: option.splits if_splits)

lemma c_id_state_name_of [simp]: "c_id (state_name_of sts sm city) = c_id city"
  by (auto simp: state_name_of_def split: option.splits)

lemma resolve_pure:
  "resolve trim toLowerCase t = Inr (t\<lparr>cities := map (state_name_of (states t) (statesMap (states t))) (cities t),
       beautySalons := infer trim toLowerCase (map (state_name_of (states t) (statesMap (states t))) (cities t))
         (states t) (citiesMap (cities t)) (statesMap (states t)) (beautySalons t)\<rparr>)"
  by (simp add: resolve_def Let_def backfill_pure)

text \<open>
  Claim C6. Resolution (the state-name backfill followed by the link inference) returns
  without an error, and run again on the tables it returned it returns those same tables:
  no city's \<open>state_name\<close> and no salon's \<open>city_id\<close>, \<open>city_name\<close>, \<open>state_id\<close> or
  \<open>state_name\<close> changes in the second run.
\<close>

theorem resolve_idempotent:
  "\<exists>t1. resolve trim toLowerCase t = Inr t1 \<and> resolve trim toLowerCase t1 = Inr t1"
proof -
  define sm where "sm = statesMap (states t)"
  define cs1 where "cs1 = map (state_name_of (states t) sm) (cities t)"
  define ss1 where "ss1 = infer trim toLowerCase cs1 (states t) (citiesMap (cities t)) sm (beautySalons t)"
  define t1 where "t1 = t\<lparr>cities := cs1, beautySalons := ss1\<rparr>"
  have 1: "resolve trim toLowerCase t = Inr t1"
    by (simp add: resolve_pure t1_def cs1_def ss1_def sm_def)
  have m: "citiesMap cs1 = citiesMap (cities t)"
    by (simp add: citiesMap_def cs1_def comp_def)
  have c: "map (state_name_of (states t) sm) cs1 = cs1"
    by (simp add: cs1_def state_name_of_idem)
  have s: "infer trim toLowerCase cs1 (states t) (citiesMap (cities t)) sm ss1 = ss1"
    by (simp add: ss1_def infer_def infer_salon_idem)
  have "resolve trim toLowerCase t1 = Inr (t1\<lparr>cities := cs1, beautySalons := ss1\<rparr>)"
    unfolding resolve_pure by (simp add: t1_def m c s sm_def [symmetric])
  also have "t1\<lparr>cities := cs1, beautySalons := ss1\<rparr> = t1"
    by (simp add: t1_def)
  finally show ?thesis using 1 by blast
qed

section \<open>Aggregation\<close>

lemma count_city_pure:
  "count_city cm salon cs = Inr (bump inc_city_salon_count (salon_city_hit cm salon) cs)"
  by (auto simp: count_city_def salon_city_hit_def bump_def update_at_def map_has_get
           split: option.splits)

lemma count_state_pure:
  "count_state sm salon sts = Inr (bump inc_state_salon_count (salon_state_hit sm salon) sts)"
  by (auto simp: count_state_def salon_state_hit_def bump_def update_at_def map_has_get
           split: option.splits)

lemma count_category_pure:
  "count_category catm k cats = Inr (bump inc_category_salon_count (map_get catm k) cats)"
  by (auto simp: count_category_def update_at_def bump_def map_has_get split: option.splits)

lemma count_categories_pure:
  "count_categories catm salon cats =
     Inr (fold (\<lambda>k. bump inc_category_salon_count (map_get catm k)) (split_field (s_category_ids salon)) cats)"
  by (simp add: count_categories_def split_field_def foldE_pure [OF count_category_pure]
      split: option.splits)

lemma count_city_of_state_pure:
  "count_city_of_state sm city sts = Inr (bump inc_state_city_count (city_state_hit sm city) sts)"
  by (auto simp: count_city_of_state_def city_state_hit_def bump_def update_at_def map_has_get
           split: option.splits)

lemma count_salon_eq: "count_salon cm sm catm salon t = Inr (count_salon_pure cm sm catm salon t)"
  by (simp add: count_salon_def count_salon_pure_def count_city_pure count_state_pure
      count_categories_pure)

lemma fold_count_salon_pure:
  "fold (count_salon_pure cm sm catm) ss t =
     t\<lparr>cities := fold (\<lambda>s. bump inc_city_salon_count (salon_city_hit cm s)) ss (cities t),
       states := fold (\<lambda>s. bump inc_state_salon_count (salon_state_hit sm s)) ss (states t),
       categories := fold (\<lambda>k. bump inc_category_salon_count (map_get catm k))
                       (concat (map (\<lambda>s. split_field (s_category_ids s)) ss)) (categories t)\<rparr>"
  by (induction ss arbitrary: t) (simp_all add: count_salon_pure_def)

lemma aggregate_eq: "aggregate cm sm catm t = Inr (aggregate_pure cm sm catm t)"
  by (simp add: aggregate_def foldE_pure [OF count_salon_eq] foldE_pure [OF count_city_of_state_pure]
      fold_count_salon_pure aggregate_pure_def)

lemma resolve_resolved: "resolve trim toLowerCase t = Inr (resolved trim toLowerCase t)"
  by (simp add: resolve_pure resolved_def)

lemma generateHTML_eq: "generateHTML trim toLowerCase slugify t0 = Inr (project toLowerCase slugify (aggregated trim toLowerCase t0))"
  by (simp add: generateHTML_def Let_def resolve_resolved aggregate_eq aggregated_def project_def)

lemma add_one_pow: "no_count c \<Longrightarrow> (add_one ^^ n) c = counted c n"
proof (induction n)
  case 0
  show ?case by (simp add: counted_def)
next
  case (Suc n)
  then show ?case by (cases c) (auto simp: counted_def)
qed

lemma inc_city_salon_count_pow:
  "(inc_city_salon_count ^^ n) c = c\<lparr>c_salon_count := (add_one ^^ n) (c_salon_count c)\<rparr>"
  by (induction n) (simp_all add: inc_city_salon_count_def)

lemma inc_state_salon_count_pow:
  "(inc_state_salon_count ^^ n) s = s\<lparr>st_salon_count := (add_one ^^ n) (st_salon_count s)\<rparr>"
  by (induction n) (simp_all add: inc_state_salon_count_def)

lemma inc_state_city_count_pow:
  "(inc_state_city_count ^^ n) s = s\<lparr>st_city_count := (add_one ^^ n) (st_city_count s)\<rparr>"
  by (induction n) (simp_all add: inc_state_city_count_def)

lemma inc_category_salon_count_pow:
  "(inc_category_salon_count ^^ n) c = c\<lparr>cat_salon_count := (add_one ^^ n) (cat_salon_count c)\<rparr>"
  by (induction n) (simp_all add: inc_category_salon_count_def)

lemma in_set_drop_nth:
  "x \<in> set (drop n xs) \<longleftrightarrow> (\<exists>j. n \<le> j \<and> j < length xs \<and> xs ! j = x)"
proof
  assume "x \<in> set (drop n xs)"
  then obtain i where i: "i < length (drop n xs)" "drop n xs ! i = x"
    by (auto simp: in_set_conv_nth)
  then have "n \<le> n + i \<and> n + i < length xs \<and> xs ! (n + i) = x" by auto
  then show "\<exists>j. n \<le> j \<and> j < length xs \<and> xs ! j = x" by blast
next
  assume "\<exists>j. n \<le> j \<and> j < length xs \<and> xs ! j = x"
  then obtain j where j: "n \<le> j" "j < length xs" "xs ! j = x" by blast
  then have "j - n < length (drop n xs)" "drop n xs ! (j - n) = x" by auto
  then show "x \<in> set (drop n xs)" by (auto simp: in_set_conv_nth)
qed

lemma map_get_index_map_held:
  assumes "i < length ids"
  shows "map_get (index_map ids) k = Some i \<longleftrightarrow> ids ! i = k \<and> held ids i"
proof -
  have "held ids i \<longleftrightarrow> (\<forall>j. i < j \<and> j < length ids \<longrightarrow> ids ! j \<noteq> ids ! i)"
    by (auto simp: held_def in_set_drop_nth Suc_le_eq)
  with assms show ?thesis
    unfolding map_get_def map_of_index_map by auto
qed

lemma salon_city_hit_held:
  assumes "i < length cs"
  shows "salon_city_hit (citiesMap cs) s = Some i \<longleftrightarrow>
           truthy_and (s_city_id s) (\<lambda>k. k = c_id (cs ! i)) \<and> held (map c_id cs) i"
  using assms map_get_index_map_held [of i "map c_id cs"]
  by (cases "s_city_id s") (auto simp: salon_city_hit_def citiesMap_def)

lemma salon_state_hit_held:
  assumes "j < length sts"
  shows "salon_state_hit (statesMap sts) s = Some j \<longleftrightarrow>
           truthy_and (s_state_id s) (\<lambda>k. k = st_id (sts ! j)) \<and> held (map st_id sts) j"
  using assms map_get_index_map_held [of j "map st_id sts"]
  by (cases "s_state_id s") (auto simp: salon_state_hit_def statesMap_def)

lemma city_state_hit_held:
  assumes "j < length sts"
  shows "city_state_hit (statesMap sts) c = Some j \<longleftrightarrow>
           (c_state_id c \<noteq> [] \<and> c_state_id c = st_id (sts ! j)) \<and> held (map st_id sts) j"
  using assms map_get_index_map_held [of j "map st_id sts" "c_state_id c"]
  by (auto simp: city_state_hit_def statesMap_def)

lemma category_hit_held:
  assumes "k < length cats"
  shows "map_get (categoriesMap cats) x = Some k \<longleftrightarrow>
           cat_id (cats ! k) = x \<and> held (map cat_id cats) k"
  using assms map_get_index_map_held [of k "map cat_id cats" x]
  by (auto simp: categoriesMap_def)

lemma length_filter_held:
  "length (filter (\<lambda>x. P x \<and> h) xs) = (if h then length (filter P xs) else 0)"
  by simp

lemma cities_aggregated:
  assumes "i < length (cities t0)"
  shows "cities (aggregated trim toLowerCase t0) ! i =
           (inc_city_salon_count ^^
              (if held (map c_id (cities t0)) i
               then salons_with_city (beautySalons (resolved trim toLowerCase t0)) (c_id (cities t0 ! i))
               else 0))
             (cities (resolved trim toLowerCase t0) ! i)"
proof -
  have "i < length (cities (resolved trim toLowerCase t0))" using assms by (simp add: resolved_def)
  then show ?thesis
    using assms
    by (simp add: aggregated_def aggregate_pure_def nth_fold_bump salon_city_hit_held
        salons_with_city_def)
qed

lemma states_aggregated:
  assumes "j < length (states t0)"
  shows "states (aggregated trim toLowerCase t0) ! j =
           (inc_state_city_count ^^
              (if held (map st_id (states t0)) j
               then cities_with_state (cities (aggregated trim toLowerCase t0)) (st_id (states t0 ! j))
               else 0))
             ((inc_state_salon_count ^^
                 (if held (map st_id (states t0)) j
                  then salons_with_state (beautySalons (resolved trim toLowerCase t0)) (st_id (states t0 ! j))
                  else 0))
                (states t0 ! j))"
proof -
  have s: "states (resolved trim toLowerCase t0) = states t0" by (simp add: resolved_def)
  show ?thesis
    using assms
    by (simp add: aggregated_def aggregate_pure_def nth_fold_bump salon_state_hit_held
        city_state_hit_held salons_with_state_def cities_with_state_def s)
qed

lemma categories_aggregated:
  assumes "k < length (categories t0)"
  shows "categories (aggregated trim toLowerCase t0) ! k =
           (inc_category_salon_count ^^
              (if held (map cat_id (categories t0)) k
               then category_occurrences (beautySalons (resolved trim toLowerCase t0)) (cat_id (categories t0 ! k))
               else 0))
             (categories t0 ! k)"
proof -
  have s: "categories (resolved trim toLowerCase t0) = categories t0" by (simp add: resolved_def)
  have n: "length (filter (\<lambda>x. map_get (categoriesMap (categories t0)) x = Some k) xs) =
           (if held (map cat_id (categories t0)) k
            then count_list xs (cat_id (categories t0 ! k)) else 0)" for xs
    using assms by (induction xs) (auto simp: category_hit_held)
  have "categories (aggregated trim toLowerCase t0) ! k =
          fold (\<lambda>x. bump inc_category_salon_count (map_get (categoriesMap (categories t0)) x))
            (concat (map (\<lambda>s. split_field (s_category_ids s)) (beautySalons (resolved trim toLowerCase t0))))
            (categories t0) ! k"
    by (simp add: aggregated_def aggregate_pure_def s)
  also have "\<dots> = (inc_category_salon_count ^^
        length (filter (\<lambda>x. map_get (categoriesMap (categories t0)) x = Some k)
          (concat (map (\<lambda>s. split_field (s_category_ids s)) (beautySalons (resolved trim toLowerCase t0))))))
        (categories t0 ! k)"
    using assms by (rule nth_fold_bump)
  finally show ?thesis by (simp only: n category_occurrences_def)
qed

lemma lengths_aggregated:
  "length (cities (aggregated trim toLowerCase t0)) = length (cities t0)"
  "length (states (aggregated trim toLowerCase t0)) = length (states t0)"
  "length (categories (aggregated trim toLowerCase t0)) = length (categories t0)"
  "beautySalons (aggregated trim toLowerCase t0) = beautySalons (resolved trim toLowerCase t0)"
  by (simp_all add: aggregated_def aggregate_pure_def resolved_def)

lemma c_salon_count_state_name_of [simp]:
  "c_salon_count (state_name_of sts sm city) = c_salon_count city"
  by (auto simp: state_name_of_def split: option.splits)

lemma c_state_id_state_name_of [simp]:
  "c_state_id (state_name_of sts sm city) = c_state_id city"
  by (auto simp: state_name_of_def split: option.splits)

lemma city_aggregated_fields:
  assumes "i < length (cities t0)" and "no_count (c_salon_count (cities t0 ! i))"
  shows "c_id (cities (aggregated trim toLowerCase t0) ! i) = c_id (cities t0 ! i)"
    and "c_salon_count (cities (aggregated trim toLowerCase t0) ! i) =
           counted (c_salon_count (cities t0 ! i))
             (if held (map c_id (cities t0)) i
              then salons_with_city (beautySalons (aggregated trim toLowerCase t0)) (c_id (cities t0 ! i))
              else 0)"
  using assms
  by (simp_all add: cities_aggregated [OF assms(1)] inc_city_salon_count_pow add_one_pow
      lengths_aggregated resolved_def)

lemma state_aggregated_fields:
  assumes "j < length (states t0)"
    and "no_count (st_salon_count (states t0 ! j))" and "no_count (st_city_count (states t0 ! j))"
  shows "st_id (states (aggregated trim toLowerCase t0) ! j) = st_id (states t0 ! j)"
    and "st_salon_count (states (aggregated trim toLowerCase t0) ! j) =
           counted (st_salon_count (states t0 ! j))
             (if held (map st_id (states t0)) j
              then salons_with_state (beautySalons (aggregated trim toLowerCase t0)) (st_id (states t0 ! j))
              else 0)"
    and "st_city_count (states (aggregated trim toLowerCase t0) ! j) =
           counted (st_city_count (states t0 ! j))
             (if held (map st_id (states t0)) j
              then cities_with_state (cities (aggregated trim toLowerCase t0)) (st_id (states t0 ! j))
              else 0)"
  using assms(2,3)
  by (simp_all add: states_aggregated [OF assms(1)] inc_state_salon_count_pow
      inc_state_city_count_pow add_one_pow lengths_aggregated)

lemma category_aggregated_fields:
  assumes "k < length (categories t0)" and "no_count (cat_salon_count (categories t0 ! k))"
  shows "cat_id (categories (aggregated trim toLowerCase t0) ! k) = cat_id (categories t0 ! k)"
    and "cat_salon_count (categories (aggregated trim toLowerCase t0) ! k) =
           counted (cat_salon_count (categories t0 ! k))
             (if held (map cat_id (categories t0)) k
              then category_occurrences (beautySalons (aggregated trim toLowerCase t0))
                     (cat_id (categories t0 ! k))
              else 0)"
  using assms(2)
  by (simp_all add: categories_aggregated [OF assms(1)] inc_category_salon_count_pow add_one_pow
      lengths_aggregated)

text \<open>
  Claim C2, as amended. Let the tables be loaded without counts: every count field is
  unset or an empty cell. Then the pipeline returns without an error, the aggregation
  leaves the ids in place, and in the tables it leaves behind, with the salons as they are
  after inference:
  a city row that the city map holds (the last row with its id; with unique ids, every
  row) has as \<open>salon_count\<close> the number of salons whose \<open>city_id\<close> is set and equals the
  row's id; a state row that the state map holds has as \<open>salon_count\<close> the number of
  salons whose \<open>state_id\<close> is set and equals the row's id, and as \<open>city_count\<close> the number
  of cities whose \<open>state_id\<close> is non-empty and equals the row's id; a category row that
  the category map holds has as \<open>salon_count\<close> the number of occurrences of its id among
  the comma-split \<open>category_ids\<close> of all salons, repetitions counted. Where that number
  is 0 the field is left as it was loaded, and so is every field of a row that a later row
  with the same id shadows.
\<close>

theorem aggregation_counts:
  assumes "\<forall>c \<in> set (cities t0). no_count (c_salon_count c)"
    and "\<forall>s \<in> set (states t0). no_count (st_salon_count s) \<and> no_count (st_city_count s)"
    and "\<forall>c \<in> set (categories t0). no_count (cat_salon_count c)"
  shows "\<exists>out. generateHTML trim toLowerCase slugify t0 = Inr out \<and>
     (let t = out_tables out; ss = beautySalons t in
        map c_id (cities t) = map c_id (cities t0) \<and>
        map st_id (states t) = map st_id (states t0) \<and>
        map cat_id (categories t) = map cat_id (categories t0) \<and>
        (\<forall>i<length (cities t).
            c_salon_count (cities t ! i) =
              counted (c_salon_count (cities t0 ! i))
                (if held (map c_id (cities t)) i
                 then salons_with_city ss (c_id (cities t ! i)) else 0)) \<and>
        (\<forall>j<length (states t).
            st_salon_count (states t ! j) =
              counted (st_salon_count (states t0 ! j))
                (if held (map st_id (states t)) j
                 then salons_with_state ss (st_id (states t ! j)) else 0) \<and>
            st_city_count (states t ! j) =
              counted (st_city_count (states t0 ! j))
                (if held (map st_id (states t)) j
                 then cities_with_state (cities t) (st_id (states t ! j)) else 0)) \<and>
        (\<forall>k<length (categories t).
            cat_salon_count (categories t ! k) =
              counted (cat_salon_count (categories t0 ! k))
                (if held (map cat_id (categories t)) k
                 then category_occurrences ss (cat_id (categories t ! k)) else 0)))"
proof -
  define t where "t = aggregated trim toLowerCase t0"
  have c0: "i < length (cities t0) \<Longrightarrow> no_count (c_salon_count (cities t0 ! i))" for i
    using assms(1) by simp
  have s0: "j < length (states t0) \<Longrightarrow> no_count (st_salon_count (states t0 ! j))" for j
    using assms(2) by simp
  have s1: "j < length (states t0) \<Longrightarrow> no_count (st_city_count (states t0 ! j))" for j
    using assms(2) by simp
  have k0: "k < length (categories t0) \<Longrightarrow> no_count (cat_salon_count (categories t0 ! k))" for k
    using assms(3) by simp
  have 1: "map c_id (cities t) = map c_id (cities t0)"
    by (rule nth_equalityI)
       (simp_all add: t_def lengths_aggregated city_aggregated_fields(1) [OF _ c0])
  have 2: "map st_id (states t) = map st_id (states t0)"
    by (rule nth_equalityI)
       (simp_all add: t_def lengths_aggregated state_aggregated_fields(1) [OF _ s0 s1])
  have 3: "map cat_id (categories t) = map cat_id (categories t0)"
    by (rule nth_equalityI)
       (simp_all add: t_def lengths_aggregated category_aggregated_fields(1) [OF _ k0])
  have 4: "c_salon_count (cities t ! i) =
              counted (c_salon_count (cities t0 ! i))
                (if held (map c_id (cities t)) i
                 then salons_with_city (beautySalons t) (c_id (cities t ! i)) else 0)"
    if "i < length (cities t)" for i
  proof -
    from that have i: "i < length (cities t0)" by (simp add: t_def lengths_aggregated)
    show ?thesis
      unfolding 1
      using city_aggregated_fields [OF i c0 [OF i], of trim toLowerCase]
      by (simp add: t_def)
  qed
  have 5: "st_salon_count (states t ! j) =
              counted (st_salon_count (states t0 ! j))
                (if held (map st_id (states t)) j
                 then salons_with_state (beautySalons t) (st_id (states t ! j)) else 0) \<and>
           st_city_count (states t ! j) =
              counted (st_city_count (states t0 ! j))
                (if held (map st_id (states t)) j
                 then cities_with_state (cities t) (st_id (states t ! j)) else 0)"
    if "j < length (states t)" for j
  proof -
    from that have j: "j < length (states t0)" by (simp add: t_def lengths_aggregated)
    show ?thesis
      unfolding 2
      using state_aggregated_fields [OF j s0 [OF j] s1 [OF j], of trim toLowerCase]
      by (simp add: t_def)
  qed
  have 6: "cat_salon_count (categories t ! k) =
              counted (cat_salon_count (categories t0 ! k))
                (if held (map cat_id (categories t)) k
                 then category_occurrences (beautySalons t) (cat_id (categories t ! k)) else 0)"
    if "k < length (categories t)" for k
  proof -
    from that have k: "k < length (categories t0)" by (simp add: t_def lengths_aggregated)
    show ?thesis
      unfolding 3
      using category_aggregated_fields [OF k k0 [OF k], of trim toLowerCase]
      by (simp add: t_def)
  qed
  have "generateHTML trim toLowerCase slugify t0 = Inr (project toLowerCase slugify t)"
    by (simp add: generateHTML_eq t_def)
  moreover have "out_tables (project toLowerCase slugify t) = t"
    by (simp add: project_def)
  ultimately show ?thesis
    using 1 2 3 4 5 6 by (intro exI [of _ "project toLowerCase slugify t"]) (simp add: Let_def)
qed

lemma repeated_id_aggregated:
  "map c_salon_count (cities (aggregated ascii_trim ascii_toLowerCase repeated_id_tables)) =
     [Unset, Count 1]"
  "map st_salon_count (states (aggregated ascii_trim ascii_toLowerCase repeated_id_tables)) =
     [Count 1]"
  "map st_city_count (states (aggregated ascii_trim ascii_toLowerCase repeated_id_tables)) =
     [Count 2]"
  "map cat_salon_count (categories (aggregated ascii_trim ascii_toLowerCase repeated_id_tables)) =
     [Count 1]"
  by code_simp+

theorem aggregation_counts_witness:
  "list_all (\<lambda>c. no_count (c_salon_count c)) (cities repeated_id_tables) \<and>
   list_all (\<lambda>s. no_count (st_salon_count s) \<and> no_count (st_city_count s))
     (states repeated_id_tables) \<and>
   list_all (\<lambda>c. no_count (cat_salon_count c)) (categories repeated_id_tables) \<and>
   (\<exists>out. generateHTML ascii_trim ascii_toLowerCase plain_slug repeated_id_tables = Inr out \<and>
      held (map c_id (cities (out_tables out))) 1 \<and>
      \<not> held (map c_id (cities (out_tables out))) 0 \<and>
      c_salon_count (cities (out_tables out) ! 1) =
        Count (salons_with_city (beautySalons (out_tables out)) (c_id (cities (out_tables out) ! 1))) \<and>
      map c_salon_count (cities (out_tables out)) = [Unset, Count 1] \<and>
      map st_salon_count (states (out_tables out)) = [Count 1] \<and>
      map st_city_count (states (out_tables out)) = [Count 2] \<and>
      map cat_salon_count (categories (out_tables out)) = [Count 1])"
proof -
  have 1: "\<forall>c \<in> set (cities repeated_id_tables). no_count (c_salon_count c)"
    by (simp add: repeated_id_tables_def springfield_def old_springfield_def)
  have 2: "\<forall>s \<in> set (states repeated_id_tables).
      no_count (st_salon_count s) \<and> no_count (st_city_count s)"
    by (simp add: repeated_id_tables_def illinois_def)
  have 3: "\<forall>c \<in> set (categories repeated_id_tables). no_count (cat_salon_count c)"
    by (simp add: repeated_id_tables_def category_b_def)
  from aggregation_counts [OF 1 2 3, of ascii_trim ascii_toLowerCase plain_slug]
  obtain out where out: "generateHTML ascii_trim ascii_toLowerCase plain_slug repeated_id_tables = Inr out"
    and ids: "map c_id (cities (out_tables out)) = map c_id (cities repeated_id_tables)"
    and c: "\<forall>i<length (cities (out_tables out)).
            c_salon_count (cities (out_tables out) ! i) =
              counted (c_salon_count (cities repeated_id_tables ! i))
                (if held (map c_id (cities (out_tables out))) i
                 then salons_with_city (beautySalons (out_tables out))
                        (c_id (cities (out_tables out) ! i))
                 else 0)"
    by (auto simp: Let_def)
  from out have "out = project ascii_toLowerCase plain_slug
      (aggregated ascii_trim ascii_toLowerCase repeated_id_tables)"
    by (simp add: generateHTML_eq)
  then have e: "out_tables out = aggregated ascii_trim ascii_toLowerCase repeated_id_tables"
    by (simp add: project_def)
  have h: "held (map c_id (cities (out_tables out))) 1"
    "\<not> held (map c_id (cities (out_tables out))) 0"
    unfolding ids
    by (simp_all add: held_def repeated_id_tables_def springfield_def old_springfield_def)
  have v: "map c_salon_count (cities (out_tables out)) = [Unset, Count 1]"
    by (simp add: e repeated_id_aggregated)
  then have l: "1 < length (cities (out_tables out))"
    by (metis length_map length_Cons list.size(3) One_nat_def lessI)
  from v have v1: "c_salon_count (cities (out_tables out) ! 1) = Count 1"
    by (metis l nth_map nth_Cons_0 nth_Cons_Suc One_nat_def)
  from c l h(1) have "c_salon_count (cities (out_tables out) ! 1) =
      counted (c_salon_count (cities repeated_id_tables ! 1))
        (salons_with_city (beautySalons (out_tables out)) (c_id (cities (out_tables out) ! 1)))"
    by simp
  with v1 have n: "c_salon_count (cities (out_tables out) ! 1) =
        Count (salons_with_city (beautySalons (out_tables out)) (c_id (cities (out_tables out) ! 1)))"
    by (auto simp: counted_def repeated_id_tables_def springfield_def split: if_splits)
  from 1 2 3 have "list_all (\<lambda>c. no_count (c_salon_count c)) (cities repeated_id_tables)"
    "list_all (\<lambda>s. no_count (st_salon_count s) \<and> no_count (st_city_count s))
       (states repeated_id_tables)"
    "list_all (\<lambda>c. no_count (cat_salon_count c)) (categories repeated_id_tables)"
    by (simp_all only: list_all_iff)
  then show ?thesis
    using out h n v by (auto simp: e repeated_id_aggregated)
qed

text \<open>
  Claim C2 as stated fails where an id occurs twice. In the tables with two city rows of
  id \<open>10\<close> and one salon of that city, the pipeline returns without an error; there is one
  salon whose \<open>city_id\<close> equals the id of the first row, and the \<open>salon_count\<close> of that
  row is left unset.
\<close>

theorem aggregation_counts_counterexample:
  "\<not> isl (generateHTML ascii_trim ascii_toLowerCase plain_slug repeated_id_tables) \<and>
   c_id (hd (cities (out_tables
     (projr (generateHTML ascii_trim ascii_toLowerCase plain_slug repeated_id_tables))))) = ''10'' \<and>
   salons_with_city (beautySalons (out_tables
     (projr (generateHTML ascii_trim ascii_toLowerCase plain_slug repeated_id_tables)))) ''10'' = 1 \<and>
   c_salon_count (hd (cities (out_tables
     (projr (generateHTML ascii_trim ascii_toLowerCase plain_slug repeated_id_tables))))) = Unset"
proof -
  have "c_id (hd (cities (aggregated ascii_trim ascii_toLowerCase repeated_id_tables))) = ''10''"
    by code_simp
  moreover have "salons_with_city
      (beautySalons (aggregated ascii_trim ascii_toLowerCase repeated_id_tables)) ''10'' = 1"
    by code_simp
  moreover have "c_salon_count
      (hd (cities (aggregated ascii_trim ascii_toLowerCase repeated_id_tables))) = Unset"
    by code_simp
  ultimately show ?thesis
    by (simp add: generateHTML_eq project_def)
qed

text \<open>
  A count that was loaded is a string, and counting appends to it: the cell \<open>5\<close> of a
  city with one salon becomes \<open>51\<close>.
\<close>

lemma loaded_count_is_appended_to:
  "map c_salon_count (cities (aggregated ascii_trim ascii_toLowerCase loaded_count_tables)) =
     [Cell ''51'']"
  by code_simp

subsection \<open>Segments are not trimmed\<close>

lemma map_get_categoriesMap:
  "map_get (categoriesMap cats) x = Some k \<Longrightarrow> k < length cats \<and> cat_id (cats ! k) = x"
  by (auto simp: map_get_def categoriesMap_def map_of_index_map)

text \<open>
  Claim C10. For a salon whose \<open>category_ids\<close> field is \<open>a, b\<close> the segments are \<open>a\<close>
  and \<open>b\<close> with its leading blank. Counting the categories of that salon returns without
  an error and leaves every category with id \<open>b\<close> exactly as it was; and the salon
  contributes nothing to the \<open>salon_ids\<close> of a projected category with id \<open>b\<close>: the
  list is the same with or without the salon among the projected salons.
\<close>

theorem untrimmed_segments:
  assumes "s_category_ids salon = Some ''a, b''"
  shows "ps_category_ids (processSalon slugify salon) = [''a'', '' b''] \<and>
         (\<exists>cats'. count_categories (categoriesMap cats) salon cats = Inr cats' \<and>
            length cats' = length cats \<and>
            (\<forall>k<length cats. cat_id (cats ! k) = ''b'' \<longrightarrow> cats' ! k = cats ! k)) \<and>
         (cat_id category = ''b'' \<longrightarrow>
            pcat_salon_ids (processCategory slugify (pss @ processSalon slugify salon # pss') category) =
            pcat_salon_ids (processCategory slugify (pss @ pss') category))"
proof (intro conjI)
  show p: "ps_category_ids (processSalon slugify salon) = [''a'', '' b'']"
    using assms by (simp add: processSalon_def Let_def split_field_def)
  let ?cats' = "fold (\<lambda>k. bump inc_category_salon_count (map_get (categoriesMap cats) k))
                  [''a'', '' b''] cats"
  have 1: "count_categories (categoriesMap cats) salon cats = Inr ?cats'"
    using assms by (simp add: count_categories_pure split_field_def)
  have 2: "?cats' ! k = cats ! k" if "k < length cats" "cat_id (cats ! k) = ''b''" for k
  proof -
    have "map_get (categoriesMap cats) ''a'' \<noteq> Some k"
      using map_get_categoriesMap [of cats "''a''" k] that by auto
    moreover have "map_get (categoriesMap cats) '' b'' \<noteq> Some k"
      using map_get_categoriesMap [of cats "'' b''" k] that by auto
    ultimately show ?thesis
      using that(1) by (simp only: nth_fold_bump) simp
  qed
  show "\<exists>cats'. count_categories (categoriesMap cats) salon cats = Inr cats' \<and>
            length cats' = length cats \<and>
            (\<forall>k<length cats. cat_id (cats ! k) = ''b'' \<longrightarrow> cats' ! k = cats ! k)"
    using 1 2 by (intro exI [of _ ?cats']) (simp only: length_fold_bump, blast)
  show "cat_id category = ''b'' \<longrightarrow>
            pcat_salon_ids (processCategory slugify (pss @ processSalon slugify salon # pss') category) =
            pcat_salon_ids (processCategory slugify (pss @ pss') category)"
    by (simp add: processCategory_def p)
qed

theorem untrimmed_segments_witness:
  "s_category_ids salon_B = Some ''a, b'' \<and>
   ps_category_ids (processSalon plain_slug salon_B) = [''a'', '' b''] \<and>
   count_categories (categoriesMap [category_b]) salon_B [category_b] = Inr [category_b] \<and>
   pcat_salon_ids (processCategory plain_slug [processSalon plain_slug salon_B] category_b) = []"
proof -
  have 1: "s_category_ids salon_B = Some ''a, b''" by (simp add: salon_B_def blank_salon_def)
  have 2: "cat_id category_b = ''b''" by (simp add: category_b_def)
  note t = untrimmed_segments [OF 1, of plain_slug "[category_b]" category_b "[]" "[]"]
  from t obtain cats' where a: "count_categories (categoriesMap [category_b]) salon_B [category_b] = Inr cats'"
    "length cats' = length [category_b]"
    "\<forall>k<length [category_b]. cat_id ([category_b] ! k) = ''b'' \<longrightarrow> cats' ! k = [category_b] ! k"
    by blast
  from a(3) 2 have "cats' ! 0 = category_b" by simp
  with a(2) have "cats' = [category_b]" by (cases cats') auto
  with a(1) have 3: "count_categories (categoriesMap [category_b]) salon_B [category_b] = Inr [category_b]"
    by simp
  from t 2 have 4: "pcat_salon_ids (processCategory plain_slug [processSalon plain_slug salon_B] category_b) = []"
    by (simp add: processCategory_def)
  from t have 5: "ps_category_ids (processSalon plain_slug salon_B) = [''a'', '' b'']" by blast
  from 1 3 4 5 show ?thesis by blast
qed

section \<open>Projection\<close>

text \<open>
  Claim C4, as amended. The projected City, State and Category records have no
  \<open>salon_count\<close> property: reading it gives \<^verbatim>\<open>undefined\<close>. Each record carries its
  salons as the list \<open>salon_ids\<close>, whose length is the salon count of the view.
\<close>

theorem view_has_no_salon_count:
  "property (cityObject city) ''salon_count'' = JUndefined \<and>
   property (cityObject city) ''salon_ids'' = JArray (pc_salon_ids city) \<and>
   property (stateObject state) ''salon_count'' = JUndefined \<and>
   property (stateObject state) ''salon_ids'' = JArray (pst_salon_ids state) \<and>
   property (categoryObject category) ''salon_count'' = JUndefined \<and>
   property (categoryObject category) ''salon_ids'' = JArray (pcat_salon_ids category)"
  by (simp add: property_def cityObject_def stateObject_def categoryObject_def)

text \<open>
  Claim C4 as stated fails: for the city of the fixture, projected with both salons of the
  fixture, the \<open>salon_count\<close> property of the projected record is not the length of its
  \<open>salon_ids\<close>.
\<close>

theorem view_salon_count_counterexample:
  "property (cityObject (processCity ascii_toLowerCase plain_slug (map (processSalon plain_slug) (beautySalons fixture)) springfield))
     ''salon_count'' \<noteq>
   JNumber (length (pc_salon_ids
     (processCity ascii_toLowerCase plain_slug (map (processSalon plain_slug) (beautySalons fixture)) springfield)))"
  by (simp add: property_def cityObject_def)

lemma processSalon_fields [simp]:
  "ps_id (processSalon slugify salon) = s_id salon"
  "ps_city_id (processSalon slugify salon) = s_city_id salon"
  "ps_city_name (processSalon slugify salon) = s_city_name salon"
  "ps_state_id (processSalon slugify salon) = s_state_id salon"
  "ps_state_name (processSalon slugify salon) = s_state_name salon"
  "ps_category_ids (processSalon slugify salon) = split_field (s_category_ids salon)"
  by (simp_all add: processSalon_def Let_def)





lemma aggregated_name_only:
  "beautySalons (aggregated ascii_trim ascii_toLowerCase fixture_name_only) = [salon_C]"
  "states (aggregated ascii_trim ascii_toLowerCase fixture_name_only) = [illinois\<lparr>st_city_count := Count 1\<rparr>]"
  "cities (aggregated ascii_trim ascii_toLowerCase fixture_name_only) = [springfield\<lparr>c_state_name := Some ''Illinois''\<rparr>]"
  by code_simp+

lemma lower_illinois: "ascii_toLowerCase ''illinois'' = ascii_toLowerCase ''Illinois''"
  by code_simp

text \<open>
  Claim C3. There is an input on which a state's aggregated \<open>salon_count\<close> differs from
  the length of its projected \<open>salon_ids\<close>: the one salon carries the state's name, in
  another letter case, and no \<open>state_id\<close>. Aggregation, which compares ids only, leaves
  the count unset, while the projection lists the salon through the comparison of names.
  The input is ASCII text, on which the built-ins are the functions of the fixtures.
\<close>

theorem count_and_membership_diverge:
  "\<exists>out. generateHTML ascii_trim ascii_toLowerCase slugify fixture_name_only = Inr out \<and>
     map s_state_id (beautySalons (out_tables out)) = [None] \<and>
     map s_state_name (beautySalons (out_tables out)) = [Some ''illinois''] \<and>
     map st_state (states (out_tables out)) = [''Illinois''] \<and>
     map st_salon_count (states (out_tables out)) = [Unset] \<and>
     map pst_salon_ids (processedStates out) = [[''3'']] \<and>
     map (\<lambda>s. or0 (st_salon_count s)) (states (out_tables out)) \<noteq>
       map (\<lambda>p. Count (length (pst_salon_ids p))) (processedStates out)"
proof -
  let ?out = "project ascii_toLowerCase slugify
      (aggregated ascii_trim ascii_toLowerCase fixture_name_only)"
  have 1: "generateHTML ascii_trim ascii_toLowerCase slugify fixture_name_only = Inr ?out" by (rule generateHTML_eq)
  have 2: "map s_state_id (beautySalons (out_tables ?out)) = [None]"
    by (simp add: project_def aggregated_name_only salon_C_def blank_salon_def)
  have 3: "map s_state_name (beautySalons (out_tables ?out)) = [Some ''illinois'']"
    by (simp add: project_def aggregated_name_only salon_C_def blank_salon_def)
  have 4: "map st_state (states (out_tables ?out)) = [''Illinois'']"
    by (simp add: project_def aggregated_name_only illinois_def)
  have 5: "map st_salon_count (states (out_tables ?out)) = [Unset]"
    by (simp add: project_def aggregated_name_only illinois_def)
  have 6: "map pst_salon_ids (processedStates ?out) = [[''3'']]"
    by (simp add: project_def aggregated_name_only processState_def salonOfState_def)
       (simp add: salon_C_def blank_salon_def illinois_def lower_illinois)
  have 7: "map (\<lambda>s. or0 (st_salon_count s)) (states (out_tables ?out)) \<noteq>
       map (\<lambda>p. Count (length (pst_salon_ids p))) (processedStates ?out)"
    using 5 6 by (simp add: project_def aggregated_name_only)
  show ?thesis
    by (rule exI [of _ ?out], intro conjI) (rule 1, rule 2, rule 3, rule 4, rule 5, rule 6, rule 7)
qed

section \<open>Company sitemaps\<close>

lemma digit_char_value: "d < 10 \<Longrightarrow> of_char (digit_char d) = 48 + d"
  by (simp add: digit_char_def)

lemma digits_value_show_nat: "digits_value (show_nat n) = n"
proof (induction n rule: show_nat.induct)
  case (1 n)
  show ?case
  proof (cases "n < 10")
    case True
    then show ?thesis
      by (subst show_nat.simps) (simp add: digits_value_def digit_char_value)
  next
    case False
    have d: "of_char (digit_char (n mod 10)) = 48 + n mod 10"
      by (rule digit_char_value) simp
    have "digits_value (show_nat n) = 10 * digits_value (show_nat (n div 10)) + n mod 10"
      using False by (subst show_nat.simps) (simp add: digits_value_def d)
    with 1 False show ?thesis by simp
  qed
qed

lemma show_nat_inj: "show_nat n = show_nat m \<Longrightarrow> n = m"
  by (metis digits_value_show_nat)

lemma sitemap_filename_inj: "sitemap_filename n = sitemap_filename m \<Longrightarrow> n = m"
  by (simp add: sitemap_filename_def show_nat_inj)

lemma chunks_lt: "k < (n + 199) div 200 \<longleftrightarrow> 200 * k < (n::nat)"
  by linarith

lemma company_sitemaps_from_chunks:
  "company_sitemaps_from (200 * k) salons =
     map (chunk_file salons) [k..<(length salons + 199) div 200]"
proof (induction "(length salons + 199) div 200 - k" arbitrary: k)
  case 0
  then have "\<not> 200 * k < length salons" using chunks_lt [of k "length salons"] by simp
  with 0 show ?case
    by (subst company_sitemaps_from.simps) simp
next
  case (Suc d)
  then have lt: "k < (length salons + 199) div 200" by simp
  then have l: "200 * k < length salons" by (simp only: chunks_lt)
  have "company_sitemaps_from (200 * k) salons =
          chunk_file salons k # company_sitemaps_from (200 * Suc k) salons"
    using l by (subst company_sitemaps_from.simps)
      (simp add: chunk_file_def slice_def Let_def add.commute)
  also have "company_sitemaps_from (200 * Suc k) salons =
          map (chunk_file salons) [Suc k..<(length salons + 199) div 200]"
  proof (rule Suc.hyps(1))
    show "d = (length salons + 199) div 200 - Suc k" using Suc.hyps(2) by simp
  qed
  finally show ?case using lt by (simp add: upt_conv_Cons)
qed

lemma ceiling_div_200: "nat \<lceil>real n / 200\<rceil> = (n + 199) div 200"
proof -
  have "\<lceil>real n / 200\<rceil> = - (- int n div 200)"
    using ceiling_divide_eq_div [of "int n" 200] by simp
  then show ?thesis by linarith
qed

lemma company_sitemaps_eq:
  "company_sitemaps salons = map (chunk_file salons) [0..<(length salons + 199) div 200]"
  using company_sitemaps_from_chunks [of 0 salons] by (simp add: company_sitemaps_def)

lemma distinct_company_sitemap_names: "distinct (map fst (company_sitemaps salons))"
proof -
  have "inj_on (\<lambda>m. sitemap_filename (m + 1)) A" for A
    by (rule inj_onI) (auto dest: sitemap_filename_inj)
  then show ?thesis
    by (simp add: company_sitemaps_eq chunk_file_def comp_def distinct_map)
qed

lemma dom_write_files: "dom (write_files ws dir) = dom dir \<union> fst ` set ws"
  by (induction ws arbitrary: dir) (auto simp: write_files_def)

lemma first_sitemap_filenames:
  "sitemap_filename 1 = ''companies-sitemap1.xml''"
  "sitemap_filename (Suc 0) = ''companies-sitemap1.xml''"
  "sitemap_filename 2 = ''companies-sitemap2.xml''"
  "sitemap_filename (Suc (Suc 0)) = ''companies-sitemap2.xml''"
  "sitemap_filename 3 = ''companies-sitemap3.xml''"
  by code_simp+

lemma str_split_line: "sep \<notin> set l \<Longrightarrow> str_split sep (l @ sep # rest) = l # str_split sep rest"
proof (induction l)
  case Nil
  show ?case by simp
next
  case (Cons c l)
  then show ?case by (auto split: list.splits)
qed

lemma strip_prefix_append: "strip_prefix p (p @ r) = Some r"
  by (simp add: strip_prefix_def)

lemma strip_suffix_append: "strip_suffix q (r @ q) = Some r"
  by (simp add: strip_suffix_def)

lemma loc_of_loc_line: "loc_of_line (''    <loc>'' @ u @ ''</loc>'') = Some u"
  unfolding loc_of_line_def strip_prefix_append by (simp add: strip_suffix_append)

lemma locs_url_entry:
  assumes "CHR 0x0A \<notin> set (ps_slug salon)"
  shows "List.map_filter loc_of_line (str_split (CHR 0x0A) (url_entry salon @ rest)) =
           company_url salon # List.map_filter loc_of_line (str_split (CHR 0x0A) rest)"
proof -
  define l1 where "l1 = ''  <url>''"
  define l2 where "l2 = ''    <loc>'' @ company_url salon @ ''</loc>''"
  define l3 where "l3 = ''    <changefreq>monthly</changefreq>''"
  define l4 where "l4 = ''    <priority>0.8</priority>''"
  define l5 where "l5 = ''  </url>''"
  have e: "url_entry salon @ rest =
      l1 @ CHR 0x0A # l2 @ CHR 0x0A # l3 @ CHR 0x0A # l4 @ CHR 0x0A # l5 @ CHR 0x0A # rest"
    by (simp add: url_entry_def baseUrl_def company_url_def l1_def l2_def l3_def l4_def l5_def)
  have n: "CHR 0x0A \<notin> set l1" "CHR 0x0A \<notin> set l2" "CHR 0x0A \<notin> set l3"
    "CHR 0x0A \<notin> set l4" "CHR 0x0A \<notin> set l5"
    using assms by (simp_all add: l1_def l2_def l3_def l4_def l5_def company_url_def)
  have s: "str_split (CHR 0x0A) (url_entry salon @ rest) =
      l1 # l2 # l3 # l4 # l5 # str_split (CHR 0x0A) rest"
    unfolding e by (simp only: str_split_line n not_False_eq_True)
  have v: "loc_of_line l1 = None" "loc_of_line l3 = None" "loc_of_line l4 = None"
    "loc_of_line l5 = None"
    by (simp_all add: l1_def l3_def l4_def l5_def loc_of_line_def strip_prefix_def)
  have w: "loc_of_line l2 = Some (company_url salon)"
    unfolding l2_def by (rule loc_of_loc_line)
  show ?thesis
    unfolding s by (simp add: v w)
qed

lemma locs_entries:
  assumes "\<forall>s \<in> set chunk. CHR 0x0A \<notin> set (ps_slug s)"
  shows "List.map_filter loc_of_line (str_split (CHR 0x0A) (concat (map url_entry chunk) @ rest)) =
           map company_url chunk @ List.map_filter loc_of_line (str_split (CHR 0x0A) rest)"
  using assms
proof (induction chunk)
  case Nil
  show ?case by simp
next
  case (Cons salon chunk)
  have "concat (map url_entry (salon # chunk)) @ rest =
          url_entry salon @ (concat (map url_entry chunk) @ rest)"
    by simp
  with Cons show ?case
    by (simp only: locs_url_entry list.set insert_iff ball_simps list.map append_Cons simp_thms)
       simp
qed

lemma sitemap_locs_sitemapXml:
  assumes "\<forall>s \<in> set chunk. CHR 0x0A \<notin> set (ps_slug s)"
  shows "sitemap_locs (sitemapXml chunk) = map company_url chunk"
proof -
  define h1 where "h1 = ''<?xml version='' @ [CHR 0x22] @ ''1.0'' @ [CHR 0x22] @
       '' encoding='' @ [CHR 0x22] @ ''UTF-8'' @ [CHR 0x22] @ ''?>''"
  define h2 where "h2 = ''<urlset xmlns='' @ [CHR 0x22] @
       ''http://www.sitemaps.org/schemas/sitemap/0.9'' @ [CHR 0x22] @ ''>''"
  have e: "sitemapXml chunk =
      h1 @ CHR 0x0A # h2 @ CHR 0x0A # (concat (map url_entry chunk) @ ''</urlset>'')"
    by (simp add: sitemapXml_def h1_def h2_def)
  have n: "CHR 0x0A \<notin> set h1" "CHR 0x0A \<notin> set h2"
    by (simp_all add: h1_def h2_def)
  have s: "str_split (CHR 0x0A) (sitemapXml chunk) =
      h1 # h2 # str_split (CHR 0x0A) (concat (map url_entry chunk) @ ''</urlset>'')"
    unfolding e by (simp only: str_split_line n not_False_eq_True)
  have v: "loc_of_line h1 = None" "loc_of_line h2 = None"
    by (simp_all add: h1_def h2_def loc_of_line_def strip_prefix_def)
  have t: "List.map_filter loc_of_line (str_split (CHR 0x0A) ''</urlset>'') = []"
    by code_simp
  show ?thesis
    unfolding sitemap_locs_def s
    by (simp add: v locs_entries [OF assms] t del: str_split.simps)
qed

lemma chunk_locs:
  assumes "\<forall>s \<in> set salons. CHR 0x0A \<notin> set (ps_slug s)"
  shows "sitemap_locs (snd (chunk_file salons m)) =
           map company_url (take 200 (drop (200 * m) salons))"
proof -
  have "\<forall>s \<in> set (take 200 (drop (200 * m) salons)). CHR 0x0A \<notin> set (ps_slug s)"
    using assms by (meson in_set_dropD in_set_takeD)
  then show ?thesis by (simp add: chunk_file_def sitemap_locs_sitemapXml)
qed

text \<open>
  Claim C9. The company sitemap loop writes one file per chunk of 200 projected salons:
  the \<open>m\<close>-th chunk, counted from 0, goes to \<^verbatim>\<open>companies-sitemap<m+1>.xml\<close>. The
  names differ from one another, so the directory receives exactly the ceiling of the
  number of salons over 200 files. Read back, each file holds the addresses of the next
  200 salons, in order, the last file those of the remainder; this reading takes the slugs
  to be free of line feeds, as the tokens of the slug library are. With 450 salons the
  files are three, named 1 to 3, and they hold 200, 200 and 50 entries.
\<close>

theorem company_sitemap_files:
  "company_sitemaps salons = map (chunk_file salons) [0..<nat \<lceil>real (length salons) / 200\<rceil>] \<and>
   card (dom (write_files (company_sitemaps salons) Map.empty)) = nat \<lceil>real (length salons) / 200\<rceil> \<and>
   ((\<forall>s \<in> set salons. CHR 0x0A \<notin> set (ps_slug s)) \<longrightarrow>
      map (\<lambda>file. sitemap_locs (snd file)) (company_sitemaps salons) =
        map (\<lambda>m. map company_url (take 200 (drop (200 * m) salons)))
          [0..<nat \<lceil>real (length salons) / 200\<rceil>] \<and>
      (length salons = 450 \<longrightarrow>
         map fst (company_sitemaps salons) =
           [''companies-sitemap1.xml'', ''companies-sitemap2.xml'', ''companies-sitemap3.xml''] \<and>
         map (\<lambda>file. length (sitemap_locs (snd file))) (company_sitemaps salons) = [200, 200, 50]))"
proof (intro conjI impI)
  show "company_sitemaps salons = map (chunk_file salons) [0..<nat \<lceil>real (length salons) / 200\<rceil>]"
    by (simp only: ceiling_div_200 company_sitemaps_eq)
  have "card (dom (write_files (company_sitemaps salons) Map.empty)) =
          card (set (map fst (company_sitemaps salons)))"
    by (simp add: dom_write_files)
  also have "\<dots> = length (map fst (company_sitemaps salons))"
    by (rule distinct_card) (rule distinct_company_sitemap_names)
  also have "\<dots> = nat \<lceil>real (length salons) / 200\<rceil>"
    by (simp add: company_sitemaps_eq ceiling_div_200)
  finally show "card (dom (write_files (company_sitemaps salons) Map.empty)) =
      nat \<lceil>real (length salons) / 200\<rceil>" .
next
  assume a: "\<forall>s \<in> set salons. CHR 0x0A \<notin> set (ps_slug s)"
  show "map (\<lambda>file. sitemap_locs (snd file)) (company_sitemaps salons) =
        map (\<lambda>m. map company_url (take 200 (drop (200 * m) salons)))
          [0..<nat \<lceil>real (length salons) / 200\<rceil>]"
    by (simp add: company_sitemaps_eq ceiling_div_200 comp_def chunk_locs [OF a])
next
  assume a: "\<forall>s \<in> set salons. CHR 0x0A \<notin> set (ps_slug s)"
  assume n: "length salons = 450"
  have u: "[0..<(450 + 199) div 200] = [0, 1, 2::nat]"
    by (simp add: upt_conv_Cons)
  have c: "company_sitemaps salons =
      [chunk_file salons 0, chunk_file salons 1, chunk_file salons 2]"
    unfolding company_sitemaps_eq n u by simp
  show "map fst (company_sitemaps salons) =
      [''companies-sitemap1.xml'', ''companies-sitemap2.xml'', ''companies-sitemap3.xml'']"
    unfolding c by (simp add: chunk_file_def first_sitemap_filenames)
  show "map (\<lambda>file. length (sitemap_locs (snd file))) (company_sitemaps salons) = [200, 200, 50]"
    unfolding c by (simp add: chunk_locs [OF a] n)
qed

lemma fixture_slug_line: "CHR 0x0A \<notin> set (ps_slug (processSalon plain_slug salon_A))"
  by code_simp

lemma fixture_sitemap_read:
  "map (\<lambda>file. sitemap_locs (snd file))
     (company_sitemaps (map (processSalon plain_slug) [salon_A, salon_B])) =
   [[''https://electrolysisdirectory.com/companies/Springfield-Illinois-Alpha-1/'',
     ''https://electrolysisdirectory.com/companies/unknown-city-unknown-state-Beta-2/'']]"
  by code_simp

theorem company_sitemap_files_witness:
  "list_all (\<lambda>s. CHR 0x0A \<notin> set (ps_slug s))
     (replicate 450 (processSalon plain_slug salon_A)) \<and>
   length (replicate 450 (processSalon plain_slug salon_A)) = 450 \<and>
   map fst (company_sitemaps (replicate 450 (processSalon plain_slug salon_A))) =
     [''companies-sitemap1.xml'', ''companies-sitemap2.xml'', ''companies-sitemap3.xml''] \<and>
   map (\<lambda>file. length (sitemap_locs (snd file)))
     (company_sitemaps (replicate 450 (processSalon plain_slug salon_A))) = [200, 200, 50] \<and>
   map (\<lambda>file. sitemap_locs (snd file))
     (company_sitemaps (map (processSalon plain_slug) [salon_A, salon_B])) =
   [[''https://electrolysisdirectory.com/companies/Springfield-Illinois-Alpha-1/'',
     ''https://electrolysisdirectory.com/companies/unknown-city-unknown-state-Beta-2/'']]"
proof -
  have 1: "\<forall>s \<in> set (replicate 450 (processSalon plain_slug salon_A)). CHR 0x0A \<notin> set (ps_slug s)"
    using fixture_slug_line by simp
  have 2: "length (replicate 450 (processSalon plain_slug salon_A)) = 450" by simp
  note t = company_sitemap_files [of "replicate 450 (processSalon plain_slug salon_A)"]
  from t 1 2 have 3: "map fst (company_sitemaps (replicate 450 (processSalon plain_slug salon_A))) =
     [''companies-sitemap1.xml'', ''companies-sitemap2.xml'', ''companies-sitemap3.xml'']"
    by blast
  from t 1 2 have 4: "map (\<lambda>file. length (sitemap_locs (snd file)))
     (company_sitemaps (replicate 450 (processSalon plain_slug salon_A))) = [200, 200, 50]"
    by blast
  from 1 have 0: "list_all (\<lambda>s. CHR 0x0A \<notin> set (ps_slug s))
     (replicate 450 (processSalon plain_slug salon_A))"
    by (simp only: list_all_iff)
  show ?thesis
    by (intro conjI) (rule 0, rule 2, rule 3, rule 4, rule fixture_sitemap_read)
qed

end
